theory Spec2Isabelle
  imports Main "HOL-Library.Word"
begin

section \<open>JavaScript strings\<close>

text \<open>
  A JavaScript string is a sequence of UTF-16 code units; \<open>length\<close>, \<open>substring\<close>,
  \<open>trim\<close> and a regular expression without the \<open>u\<close> flag all work on code units.
  Every character the sources name lies in the Basic Multilingual Plane, so one
  character is one code unit.
\<close>

type_synonym jschar = "16 word"
type_synonym jsstring = "jschar list"

text \<open>The code units of an ASCII literal.\<close>

definition utf16 :: "string \<Rightarrow> jsstring" where
  "utf16 s = map (\<lambda>c. of_nat (of_char c)) s"

text \<open>
  \<open>String.prototype.trim\<close> removes the WhiteSpace and LineTerminator code units of
  ECMAScript from both ends.
\<close>

definition isWhiteSpace :: "jschar \<Rightarrow> bool" where
  "isWhiteSpace c \<longleftrightarrow>
     c = 0x09 \<or> c = 0x0A \<or> c = 0x0B \<or> c = 0x0C \<or> c = 0x0D \<or> c = 0x20 \<or> c = 0xA0 \<or>
     c = 0x1680 \<or> (0x2000 \<le> c \<and> c \<le> 0x200A) \<or> c = 0x2028 \<or> c = 0x2029 \<or>
     c = 0x202F \<or> c = 0x205F \<or> c = 0x3000 \<or> c = 0xFEFF"

definition trim :: "jsstring \<Rightarrow> jsstring" where
  "trim s = rev (dropWhile isWhiteSpace (rev (dropWhile isWhiteSpace s)))"

section \<open>Sentence segmenter (toolbar.ts, splitIntoSentences)\<close>

text \<open>
  The character class \<open>[.!?\<dots>]\<close> of \<open>sentenceRegex\<close>: full stop, exclamation mark,
  question mark, Arabic question mark U+061F, Arabic semicolon U+061B, Arabic full
  stop U+06D4 and the inverted question mark U+00BF.
\<close>

definition isTerminator :: "jschar \<Rightarrow> bool" where
  "isTerminator c \<longleftrightarrow>
     c = 0x2E \<or> c = 0x21 \<or> c = 0x3F \<or> c = 0x61F \<or> c = 0x61B \<or> c = 0x6D4 \<or> c = 0xBF"

text \<open>
  One attempt of \<open>/[^T]+[T]+/\<close> at the start of \<open>s\<close>: the greedy \<open>[^T]+\<close> takes the
  longest run of non-terminators, the greedy \<open>[T]+\<close> the longest run of terminators
  after it. Both runs must be non-empty. Backtracking cannot rescue a failed attempt:
  a shorter first run is followed by a non-terminator. The result is the matched text
  and the input after it.
\<close>

definition matchAt :: "jsstring \<Rightarrow> (jsstring \<times> jsstring) option" where
  "matchAt s =
     (let body = takeWhile (\<lambda>c. \<not> isTerminator c) s;
          rest = dropWhile (\<lambda>c. \<not> isTerminator c) s;
          marks = takeWhile isTerminator rest
      in if body = [] \<or> marks = [] then None
         else Some (body @ marks, dropWhile isTerminator rest))"

text \<open>
  \<open>text.match(sentenceRegex)\<close> with the \<open>g\<close> flag: all matches from left to right;
  after a match the search goes on behind it, after a failed attempt one code unit
  further. The empty list stands for \<open>null\<close> (no match).
\<close>

function matchGlobal :: "jsstring \<Rightarrow> jsstring list" where
  "matchGlobal [] = []"
| "matchGlobal (c # cs) =
     (case matchAt (c # cs) of
        Some (m, r) \<Rightarrow> m # matchGlobal r
      | None \<Rightarrow> matchGlobal cs)"
  by pat_completeness auto
termination
proof (relation "measure length")
  show "wf (measure length)" by simp
next
  fix c :: jschar and cs x2 x y
  assume "matchAt (c # cs) = Some x2" and "(x, y) = x2"
  then have "y = dropWhile isTerminator (dropWhile (\<lambda>c. \<not> isTerminator c) (c # cs))"
    and "takeWhile (\<lambda>c. \<not> isTerminator c) (c # cs) \<noteq> []"
    by (auto simp: matchAt_def Let_def split: if_splits)
  then have "length y \<le> length (dropWhile (\<lambda>c. \<not> isTerminator c) (c # cs))"
    and "\<not> isTerminator c"
    by (auto simp: length_dropWhile_le split: if_splits)
  then have "length y \<le> length cs"
    using length_dropWhile_le [of "\<lambda>c. \<not> isTerminator c" cs] by simp
  then show "(y, c # cs) \<in> measure length" by simp
next
  fix c :: jschar and cs
  show "(cs, c # cs) \<in> measure length" by simp
qed

text \<open>
  \<open>const sentences = text.match(sentenceRegex) || [text];
  return sentences.map((s) => s.trim()).filter((s) => s.length > 0);\<close>
\<close>

definition splitIntoSentences :: "jsstring \<Rightarrow> jsstring list" where
  "splitIntoSentences text =
     (let sentences = (case matchGlobal text of [] \<Rightarrow> [text] | m # ms \<Rightarrow> m # ms)
      in filter (\<lambda>s. length s > 0) (map trim sentences))"

section \<open>Translation client (azure-client.ts)\<close>

text \<open>
  Exceptions are values. The toolbar tells them apart by \<open>error.message\<close>; the three
  messages it names are constructors of their own. \<open>IndexSizeError\<close> is the
  exception of \<open>Selection.getRangeAt\<close> for an index that is not below \<open>rangeCount\<close>.
\<close>

datatype js_error =
    ReadingCancelled
  | SpeechStopped
  | SpeechPaused
  | NetworkFailure
  | TranslatorApiError
  | TypeError
  | SynthesisFailed
  | IndexSizeError

text \<open>
  A JavaScript \<open>Map\<close> from strings to strings keeps its entries in insertion order;
  \<open>set\<close> on a key that is present replaces the value in place, \<open>set\<close> on a new
  key appends.
\<close>

type_synonym js_map = "(jsstring \<times> jsstring) list"

definition jsMap_has :: "jsstring \<Rightarrow> js_map \<Rightarrow> bool" where
  "jsMap_has k m \<longleftrightarrow> map_of m k \<noteq> None"

definition jsMap_get :: "jsstring \<Rightarrow> js_map \<Rightarrow> jsstring option" where
  "jsMap_get k m = map_of m k"

fun jsMap_set :: "jsstring \<Rightarrow> jsstring \<Rightarrow> js_map \<Rightarrow> js_map" where
  "jsMap_set k v [] = [(k, v)]"
| "jsMap_set k v ((k', v') # m) =
     (if k' = k then (k, v) # m else (k', v') # jsMap_set k v m)"

definition jsMap_delete :: "jsstring \<Rightarrow> js_map \<Rightarrow> js_map" where
  "jsMap_delete k m = filter (\<lambda>p. fst p \<noteq> k) m"

text \<open>Truthiness of a \<open>string | null\<close> value, and \<open>a || b\<close> on such a value.\<close>

definition truthy :: "jsstring option \<Rightarrow> bool" where
  "truthy x = (case x of None \<Rightarrow> False | Some s \<Rightarrow> s \<noteq> [])"

definition js_or :: "jsstring option \<Rightarrow> jsstring \<Rightarrow> jsstring" where
  "js_or x d = (case x of None \<Rightarrow> d | Some s \<Rightarrow> if s \<noteq> [] then s else d)"

text \<open>
  The fields of \<open>AzureClient\<close> that translation and speech use. \<open>fetched\<close> and
  \<open>spoken\<close> record the calls that leave the client: each \<open>fetch\<close> to the translator
  (text, from, to) and each \<open>speakText\<close> (text, language).
\<close>

record azure_client =
  demoPassword :: "jsstring option"
  translationCache :: js_map
  fetched :: "(jsstring \<times> jsstring \<times> jsstring) list"
  spoken :: "(jsstring \<times> jsstring) list"

definition maxCacheSize :: nat where
  "maxCacheSize = 100"

text \<open>\<open>const cacheKey = `${fromLang}-${toLang}-${text}`\<close>\<close>

definition cacheKey :: "jsstring \<Rightarrow> jsstring \<Rightarrow> jsstring \<Rightarrow> jsstring" where
  "cacheKey fromLang toLang text = fromLang @ [0x2D] @ toLang @ [0x2D] @ text"

text \<open>
  What the remote translator can answer to one request: \<open>fetch\<close> rejects; the response
  is not \<open>ok\<close>; reading the body throws (\<open>response.json()\<close>, or \<open>translations\<close>
  missing); or the body is read and \<open>data[0]?.translations[0]?.text\<close> is a string or
  \<open>undefined\<close>.
\<close>

datatype fetch_outcome =
    FetchRejected
  | ResponseNotOk
  | BodyUnreadable
  | Body "jsstring option"

datatype translate_step =
    Returned "js_error + jsstring"
  | Requested jsstring

text \<open>
  \<open>translateText\<close> up to its first suspension: the cache check, the demo password
  check, and the \<open>fetch\<close> that \<open>translateWithAzureDirect\<close> issues. \<open>Requested k\<close>
  means the call now waits for the translator, with cache key \<open>k\<close>.
\<close>

definition translateText ::
  "jsstring \<Rightarrow> jsstring \<Rightarrow> jsstring \<Rightarrow> azure_client \<Rightarrow> translate_step \<times> azure_client" where
  "translateText text fromLang toLang c =
     (let key = cacheKey fromLang toLang text in
      if jsMap_has key (translationCache c)
      then (Returned (Inr (js_or (jsMap_get key (translationCache c)) text)), c)
      else if \<not> truthy (demoPassword c) then (Returned (Inr text), c)
      else (Requested key, c\<lparr>fetched := fetched c @ [(text, fromLang, toLang)]\<rparr>))"

text \<open>
  \<open>this.translationCache.set(cacheKey, translatedText);
  if (this.translationCache.size > this.maxCacheSize) {
    const firstKey = this.translationCache.keys().next().value;
    this.translationCache.delete(firstKey); }\<close>
  (the same statements close \<open>translateViaBackend\<close>).
\<close>

definition cacheStore :: "jsstring \<Rightarrow> jsstring \<Rightarrow> js_map \<Rightarrow> js_map" where
  "cacheStore key translatedText cache =
     (let m = jsMap_set key translatedText cache in
      if length m > maxCacheSize
      then (case m of [] \<Rightarrow> m | (firstKey, _) # _ \<Rightarrow> jsMap_delete firstKey m)
      else m)"

text \<open>
  The \<open>try\<close> block of \<open>translateWithAzureDirect\<close> after the response has arrived, and
  the function with its \<open>catch\<close>, which returns the original text. The usage counter
  that follows the cache update lives in \<open>chrome.storage\<close> and catches its own
  errors; it is outside this model.
\<close>

definition translateWithAzureDirect_try ::
  "jsstring \<Rightarrow> jsstring \<Rightarrow> fetch_outcome \<Rightarrow> azure_client \<Rightarrow> js_error + (jsstring \<times> azure_client)" where
  "translateWithAzureDirect_try text key outcome c =
     (case outcome of
        FetchRejected \<Rightarrow> Inl NetworkFailure
      | ResponseNotOk \<Rightarrow> Inl TranslatorApiError
      | BodyUnreadable \<Rightarrow> Inl TypeError
      | Body d \<Rightarrow>
          (let translatedText = js_or d text in
           Inr (translatedText,
                c\<lparr>translationCache := cacheStore key translatedText (translationCache c)\<rparr>)))"

definition translateWithAzureDirect ::
  "jsstring \<Rightarrow> jsstring \<Rightarrow> fetch_outcome \<Rightarrow> azure_client \<Rightarrow> (js_error + jsstring) \<times> azure_client" where
  "translateWithAzureDirect text key outcome c =
     (case translateWithAzureDirect_try text key outcome c of
        Inl e \<Rightarrow> (Inr text, c)
      | Inr (translatedText, c') \<Rightarrow> (Inr translatedText, c'))"

text \<open>\<open>speakText\<close> hands the sentence to the speech engine.\<close>

definition speakText :: "jsstring \<Rightarrow> jsstring \<Rightarrow> azure_client \<Rightarrow> azure_client" where
  "speakText text language c = c\<lparr>spoken := spoken c @ [(text, language)]\<rparr>"

section \<open>Playback controller (toolbar.ts, LanguageBridgeToolbar)\<close>

text \<open>The messages of \<open>showStatus\<close> that the modelled methods produce.\<close>

datatype status =
    SelectionTooLarge
  | PleaseWait
  | TextSelected
  | TextReady
  | PleaseSelectText
  | Active
  | PausedRemaining int
  | Resuming
  | Completed
  | ErrorReading
  | ErrorResuming

text \<open>
  \<open>readText\<close> and \<open>resumeReading\<close> are \<open>async\<close>: a call runs until its next
  \<open>await\<close>, and goes on when the awaited promise settles. A \<open>task\<close> is a call
  suspended at one of its awaits, with the local variables it holds there, or a call
  that has settled (\<open>Settled None\<close>: fulfilled; \<open>Settled (Some e)\<close>: rejected with
  \<open>e\<close>). Abort controllers are numbered in the order of their creation;
  \<open>signals\<close> holds the \<open>aborted\<close> flag of every signal created so far, and
  \<open>abortController\<close> is the number of the current controller or \<open>null\<close>.
  The loop of \<open>speakFromCurrentPosition\<close> holds \<open>signal\<close>, \<open>remainingSentences\<close>,
  \<open>i\<close> and \<open>globalIndex\<close>; it runs inside either caller. \<open>readText\<close> holds its
  arguments \<open>text\<close> and \<open>selection\<close>.

  Of a DOM \<open>Selection\<close> the code reads \<open>rangeCount\<close> and calls \<open>getRangeAt(0)\<close>;
  \<open>window.getSelection()\<close> gives a \<open>Selection\<close> or \<open>null\<close>.
\<close>

datatype dom_selection = Selection (rangeCount: nat)

datatype caller = ByReadText | ByResumeReading

datatype task =
    AwaitStopRecognition jsstring "dom_selection option"
  | AwaitRestartDelay jsstring "dom_selection option"
  | AwaitTranslate nat jsstring "dom_selection option" jsstring
  | AwaitSpeak caller nat "jsstring list" nat nat
  | AwaitGap caller nat "jsstring list" nat nat
  | Settled "js_error option"

record toolbar =
  isReading :: bool
  isPaused :: bool
  isTranslating :: bool
  userLanguage :: jsstring
  selectedText :: jsstring
  abortController :: "nat option"
  cachedTranslation :: "jsstring option"
  cachedOriginalText :: "jsstring option"
  translationSentences :: "jsstring list"
  currentSentenceIndex :: nat
  tooltip :: "jsstring option"
  googleDocsActive :: bool
  signals :: "bool list"
  statusLine :: "status list"
  azureClient :: azure_client
  tasks :: "task list"

definition showStatus :: "status \<Rightarrow> toolbar \<Rightarrow> toolbar" where
  "showStatus m s = s\<lparr>statusLine := statusLine s @ [m]\<rparr>"

definition aborted :: "nat \<Rightarrow> toolbar \<Rightarrow> bool" where
  "aborted signal s \<longleftrightarrow> signal < length (signals s) \<and> signals s ! signal"

text \<open>
  The translation tooltip is the element \<open>#lb-translation-tooltip\<close> of the page;
  \<open>tooltip\<close> is its text, or \<open>None\<close> when the page has none. \<open>googleDocsActive\<close>
  is what \<open>window.GoogleDocsAdapter?.isActive()\<close> answers.
  \<open>showTranslationTooltip\<close> removes the old tooltip, builds the new one and places
  it at \<open>selection.getRangeAt(0)\<close> before it adds it to the page; a selection
  without a range makes \<open>getRangeAt\<close> throw. \<open>showTranslationTooltipCentered\<close>
  reads no selection. The first component of the result is the exception thrown, if
  any.
\<close>

definition hideTranslationTooltip :: "toolbar \<Rightarrow> toolbar" where
  "hideTranslationTooltip s = s\<lparr>tooltip := None\<rparr>"

definition showTranslationTooltip ::
  "jsstring \<Rightarrow> dom_selection \<Rightarrow> toolbar \<Rightarrow> js_error option \<times> toolbar" where
  "showTranslationTooltip translatedText selection s =
     (let s1 = hideTranslationTooltip s in
      if rangeCount selection = 0 then (Some IndexSizeError, s1)
      else (None, s1\<lparr>tooltip := Some translatedText\<rparr>))"

definition showTranslationTooltipCentered :: "jsstring \<Rightarrow> toolbar \<Rightarrow> toolbar" where
  "showTranslationTooltipCentered translatedText s =
     (hideTranslationTooltip s)\<lparr>tooltip := Some translatedText\<rparr>"

text \<open>
  \<open>this.abortController = new AbortController(); const signal = this.abortController.signal;\<close>
\<close>

definition newAbortController :: "toolbar \<Rightarrow> nat \<times> toolbar" where
  "newAbortController s =
     (length (signals s),
      s\<lparr>abortController := Some (length (signals s)), signals := signals s @ [False]\<rparr>)"

text \<open>
  The \<open>catch\<close> and \<open>finally\<close> blocks of \<open>readText\<close> and of \<open>resumeReading\<close>, entered
  with the exception thrown by the \<open>try\<close> block (\<open>None\<close>: it completed). Neither
  \<open>catch\<close> rethrows.
\<close>

definition finish :: "caller \<Rightarrow> js_error option \<Rightarrow> toolbar \<Rightarrow> toolbar \<times> task" where
  "finish who thrown s =
     (let s1 =
        (case who of
           ByReadText \<Rightarrow>
             (case thrown of
                None \<Rightarrow> s
              | Some e \<Rightarrow>
                  if e \<noteq> ReadingCancelled \<and> e \<noteq> SpeechStopped \<and> e \<noteq> SpeechPaused
                  then showStatus ErrorReading s else s)
         | ByResumeReading \<Rightarrow>
             (case thrown of
                None \<Rightarrow> showStatus Completed s
              | Some e \<Rightarrow>
                  if e \<noteq> SpeechPaused \<and> e \<noteq> SpeechStopped
                  then showStatus ErrorResuming s else s))
      in (s1\<lparr>isReading := False, isTranslating := False, abortController := None\<rparr>,
          Settled None))"

text \<open>
  The head of one iteration of the \<open>for\<close> loop in \<open>speakFromCurrentPosition\<close>, from
  the test \<open>i < remainingSentences.length\<close> to
  \<open>await this.speakSentenceWithPlaybackWait(sentence, signal)\<close>; behind the loop,
  \<open>this.currentSentenceIndex = 0\<close>. \<open>globalIndex\<close> is computed from the field
  \<open>this.currentSentenceIndex\<close> as it is at that moment.
\<close>

definition loopHead ::
  "caller \<Rightarrow> nat \<Rightarrow> jsstring list \<Rightarrow> nat \<Rightarrow> toolbar \<Rightarrow> toolbar \<times> task" where
  "loopHead who signal remainingSentences i s =
     (if i < length remainingSentences then
        (let globalIndex = currentSentenceIndex s + i in
         if aborted signal s \<or> isPaused s
         then finish who (Some SpeechPaused) (s\<lparr>currentSentenceIndex := globalIndex\<rparr>)
         else
           (let sentence = remainingSentences ! i in
            (s\<lparr>azureClient := speakText sentence (userLanguage s) (azureClient s)\<rparr>,
             AwaitSpeak who signal remainingSentences i globalIndex)))
      else finish who None (s\<lparr>currentSentenceIndex := 0\<rparr>))"

text \<open>
  \<open>speakFromCurrentPosition\<close> from its entry: the slice of the sentences from the
  current position, the early return when it is empty, then the loop.
\<close>

definition speakFromCurrentPosition :: "caller \<Rightarrow> nat \<Rightarrow> toolbar \<Rightarrow> toolbar \<times> task" where
  "speakFromCurrentPosition who signal s =
     (let remainingSentences = drop (currentSentenceIndex s) (translationSentences s) in
      if length remainingSentences = 0 then finish who None s
      else loopHead who signal remainingSentences 0 s)"

text \<open>
  The loop after \<open>speakSentenceWithPlaybackWait\<close> has settled. That method rejects
  with 'Speech paused' when \<open>speakText\<close> resolved and the signal is aborted, and with
  the error of \<open>speakText\<close> when that rejected. The inner \<open>catch\<close> rethrows
  'Speech stopped' and 'Speech paused'; after any other error it sets the position
  and goes to the next iteration.
\<close>

datatype speak_outcome = SpeakResolved | SpeakRejected

definition afterSpeak ::
  "caller \<Rightarrow> nat \<Rightarrow> jsstring list \<Rightarrow> nat \<Rightarrow> nat \<Rightarrow> speak_outcome \<Rightarrow> toolbar \<Rightarrow> toolbar \<times> task" where
  "afterSpeak who signal remainingSentences i globalIndex outcome s =
     (case outcome of
        SpeakResolved \<Rightarrow>
          if aborted signal s then finish who (Some SpeechPaused) s
          else (s\<lparr>currentSentenceIndex := globalIndex + 1\<rparr>,
                AwaitGap who signal remainingSentences i globalIndex)
      | SpeakRejected \<Rightarrow>
          loopHead who signal remainingSentences (i + 1)
            (s\<lparr>currentSentenceIndex := globalIndex + 1\<rparr>))"

text \<open>The loop after the 400 ms pause between two sentences.\<close>

definition afterGap ::
  "caller \<Rightarrow> nat \<Rightarrow> jsstring list \<Rightarrow> nat \<Rightarrow> nat \<Rightarrow> toolbar \<Rightarrow> toolbar \<times> task" where
  "afterGap who signal remainingSentences i globalIndex s =
     (if aborted signal s \<or> isPaused s then finish who (Some SpeechPaused) s
      else loopHead who signal remainingSentences (i + 1) s)"

text \<open>
  The tooltip step of \<open>readText\<close>:
  \<open>if (selection) { if (window.GoogleDocsAdapter?.isActive())
  this.showTranslationTooltipCentered(translatedText);
  else this.showTranslationTooltip(translatedText, selection); }\<close>
\<close>

definition readText_tooltip ::
  "jsstring \<Rightarrow> dom_selection option \<Rightarrow> toolbar \<Rightarrow> js_error option \<times> toolbar" where
  "readText_tooltip translatedText selection s =
     (case selection of
        None \<Rightarrow> (None, s)
      | Some sel \<Rightarrow>
          if googleDocsActive s then (None, showTranslationTooltipCentered translatedText s)
          else showTranslationTooltip translatedText sel s)"

text \<open>
  \<open>readText\<close> after \<open>await translateText\<close> has produced its value: the caches, the
  sentences, the position, the tooltip, the second test of the signal, and the loop.
  All of it is inside the \<open>try\<close> block: an exception of the tooltip step, like a
  rejected \<open>translateText\<close>, goes to the \<open>catch\<close> block.
\<close>

definition readText_translated ::
  "nat \<Rightarrow> jsstring \<Rightarrow> dom_selection option \<Rightarrow> js_error + jsstring \<Rightarrow> toolbar
     \<Rightarrow> toolbar \<times> task" where
  "readText_translated signal text selection result s =
     (case result of
        Inl e \<Rightarrow> finish ByReadText (Some e) s
      | Inr translatedText \<Rightarrow>
          (let s1 = s\<lparr>cachedOriginalText := Some text,
                      cachedTranslation := Some translatedText,
                      translationSentences := splitIntoSentences translatedText,
                      currentSentenceIndex := 0\<rparr>
           in case readText_tooltip translatedText selection s1 of
                (Some e, s2) \<Rightarrow> finish ByReadText (Some e) s2
              | (None, s2) \<Rightarrow>
                  if aborted signal s2 then finish ByReadText (Some ReadingCancelled) s2
                  else speakFromCurrentPosition ByReadText signal s2))"

text \<open>
  \<open>readText\<close> from 'Starting new reading': the three flags, a new abort controller,
  and the \<open>try\<close> block up to its first suspension. When \<open>translateText\<close> answers
  from the cache or without a demo password, its promise is already resolved and
  \<open>readText\<close> goes on in the same turn of the event loop; otherwise the call waits
  for the translator.
\<close>

definition readText_start ::
  "jsstring \<Rightarrow> dom_selection option \<Rightarrow> toolbar \<Rightarrow> toolbar \<times> task" where
  "readText_start text selection s =
     (let s1 = s\<lparr>isTranslating := True, isReading := True, isPaused := False\<rparr>;
          (signal, s2) = newAbortController s1
      in if aborted signal s2 then finish ByReadText (Some ReadingCancelled) s2
         else if userLanguage s2 \<noteq> utf16 ''en'' then
           (case translateText text (utf16 ''en'') (userLanguage s2) (azureClient s2) of
              (Returned result, c) \<Rightarrow>
                readText_translated signal text selection result (s2\<lparr>azureClient := c\<rparr>)
            | (Requested key, c) \<Rightarrow>
                (s2\<lparr>azureClient := c\<rparr>, AwaitTranslate signal text selection key))
         else
           (let s3 = s2\<lparr>translationSentences := splitIntoSentences text,
                       currentSentenceIndex := 0\<rparr>
            in if aborted signal s3 then finish ByReadText (Some ReadingCancelled) s3
               else speakFromCurrentPosition ByReadText signal s3))"

text \<open>
  \<open>stopReading\<close> is called by \<open>readText\<close> only. Its first half aborts the current
  controller and stops the speech engine; then it awaits \<open>stopSpeechRecognition\<close>;
  its second half clears the session and removes the tooltip.
\<close>

definition stopReading_abort :: "toolbar \<Rightarrow> toolbar" where
  "stopReading_abort s =
     (case abortController s of
        None \<Rightarrow> s
      | Some signal \<Rightarrow>
          s\<lparr>signals := (signals s)[signal := True], abortController := None\<rparr>)"

definition stopReading_clear :: "toolbar \<Rightarrow> toolbar" where
  "stopReading_clear s =
     showStatus Active
       (hideTranslationTooltip
          (s\<lparr>isReading := False, isPaused := False, isTranslating := False,
             cachedTranslation := None, cachedOriginalText := None,
             translationSentences := [], currentSentenceIndex := 0\<rparr>))"

text \<open>\<open>readText\<close> from its entry to its first suspension.\<close>

definition readText ::
  "jsstring \<Rightarrow> dom_selection option \<Rightarrow> toolbar \<Rightarrow> toolbar \<times> task" where
  "readText text selection s =
     (if length text = 0 then (s, Settled None)
      else if isTranslating s then (showStatus PleaseWait s, Settled None)
      else if isReading s \<or> isPaused s
        then (stopReading_abort s, AwaitStopRecognition text selection)
      else readText_start text selection s)"

text \<open>
  \<open>pauseReading\<close> sets the flags; it does not abort the signal. \<open>pauseSpeaking\<close>
  cancels what the speech engine is playing; whether a \<open>speakText\<close> promise that is
  pending then still settles is left to the events that follow. \<open>remaining\<close> is a
  difference of two JavaScript numbers.
\<close>

definition pauseReading :: "toolbar \<Rightarrow> toolbar" where
  "pauseReading s =
     (let s1 = s\<lparr>isReading := False, isPaused := True, isTranslating := False\<rparr>;
          remaining = int (length (translationSentences s1)) - int (currentSentenceIndex s1)
      in showStatus (PausedRemaining remaining) s1)"

definition resumeReading :: "toolbar \<Rightarrow> toolbar \<times> task" where
  "resumeReading s =
     (if \<not> truthy (cachedTranslation s) \<or> length (translationSentences s) = 0
      then (s, Settled None)
      else
        (let s1 = showStatus Resuming
                    (s\<lparr>isReading := True, isPaused := False, isTranslating := True\<rparr>);
             (signal, s2) = newAbortController s1
         in speakFromCurrentPosition ByResumeReading signal s2))"

text \<open>
  What settles an awaited promise: the translator's answer, the end of a
  \<open>speakText\<close>, a timer, the end of \<open>stopSpeechRecognition\<close>.
\<close>

datatype completion =
    Fetched fetch_outcome
  | Spoke speak_outcome
  | TimerFired
  | RecognitionStopped

text \<open>A suspended call goes on with the completion it waits for; any other pair is ignored.\<close>

fun resume :: "task \<Rightarrow> completion \<Rightarrow> toolbar \<Rightarrow> toolbar \<times> task" where
  "resume (AwaitStopRecognition text selection) RecognitionStopped s =
     (stopReading_clear s, AwaitRestartDelay text selection)"
| "resume (AwaitRestartDelay text selection) TimerFired s = readText_start text selection s"
| "resume (AwaitTranslate signal text selection key) (Fetched outcome) s =
     (case translateWithAzureDirect text key outcome (azureClient s) of
        (result, c) \<Rightarrow>
          readText_translated signal text selection result (s\<lparr>azureClient := c\<rparr>))"
| "resume (AwaitSpeak who signal remainingSentences i globalIndex) (Spoke outcome) s =
     afterSpeak who signal remainingSentences i globalIndex outcome s"
| "resume (AwaitGap who signal remainingSentences i globalIndex) TimerFired s =
     afterGap who signal remainingSentences i globalIndex s"
| "resume t _ s = (s, t)"

section \<open>Selection and input (toolbar.ts)\<close>

text \<open>
  The timer callback of \<open>handleTextSelection\<close>, given the text of the page selection
  and the milliseconds since \<open>lastReadTime\<close>.
\<close>

definition MAX_CHARS :: nat where
  "MAX_CHARS = 1500"

definition cooldownMs :: int where
  "cooldownMs = 500"

definition handleTextSelection :: "jsstring \<Rightarrow> int \<Rightarrow> toolbar \<Rightarrow> toolbar" where
  "handleTextSelection selection timeSinceLastRead s =
     (let newSelectedText = trim selection in
      if length newSelectedText = 0 then s
      else
        (let s1 = (if length newSelectedText > MAX_CHARS
                   then showStatus SelectionTooLarge
                          (s\<lparr>selectedText := take MAX_CHARS newSelectedText\<rparr>)
                   else s\<lparr>selectedText := newSelectedText\<rparr>)
         in if isReading s1 \<and> timeSinceLastRead < cooldownMs then showStatus PleaseWait s1
            else showStatus TextSelected s1))"

text \<open>
  The listeners of the manual text box \<open>#lb-text-input\<close> (Enter key, paste), given
  the value of the box; and the callback of the Google Docs adapter.
\<close>

definition textInputSubmitted :: "jsstring \<Rightarrow> toolbar \<Rightarrow> toolbar" where
  "textInputSubmitted val s =
     (let text = trim val in
      if text \<noteq> [] then showStatus TextReady (s\<lparr>selectedText := text\<rparr>) else s)"

definition googleDocsTextSelected :: "jsstring \<Rightarrow> toolbar \<Rightarrow> toolbar" where
  "googleDocsTextSelected text s = showStatus TextSelected (s\<lparr>selectedText := text\<rparr>)"

section \<open>Events\<close>

text \<open>
  One event is one turn of the JavaScript event loop: a method call from a listener,
  or the settling of a promise that call number \<open>n\<close> awaits. A new call is added to
  \<open>tasks\<close>; \<open>toggleReading\<close> (the play button) chooses between pause, resume and
  read, and hands \<open>window.getSelection()\<close>, as it is at the click, to \<open>readText\<close>
  (of type \<open>Selection | null\<close>; in a window that shows a document it is a
  \<open>Selection\<close> object, with or without a range).
  \<open>toggleReading\<close> is the only caller of \<open>readText\<close>. The button icon, the page
  layout and the clock are not part of the state.
\<close>

datatype event =
    CallReadText jsstring "dom_selection option"
  | CallPauseReading
  | CallResumeReading
  | ToggleReading "dom_selection option"
  | PageSelection jsstring int
  | TextInput jsstring
  | GoogleDocsSelection jsstring
  | Settle nat completion

definition spawn :: "toolbar \<times> task \<Rightarrow> toolbar" where
  "spawn r = (case r of (s, t) \<Rightarrow> s\<lparr>tasks := tasks s @ [t]\<rparr>)"

definition toggleReading :: "dom_selection option \<Rightarrow> toolbar \<Rightarrow> toolbar" where
  "toggleReading windowSelection s =
     (if isReading s then pauseReading s
      else if isPaused s \<and> truthy (cachedTranslation s) then spawn (resumeReading s)
      else if selectedText s \<noteq> []
        then spawn (readText (selectedText s) windowSelection s)
      else showStatus PleaseSelectText s)"

fun step :: "event \<Rightarrow> toolbar \<Rightarrow> toolbar" where
  "step (CallReadText text selection) s = spawn (readText text selection s)"
| "step CallPauseReading s = pauseReading s"
| "step CallResumeReading s = spawn (resumeReading s)"
| "step (ToggleReading windowSelection) s = toggleReading windowSelection s"
| "step (PageSelection selection t) s = handleTextSelection selection t s"
| "step (TextInput val) s = textInputSubmitted val s"
| "step (GoogleDocsSelection text) s = googleDocsTextSelected text s"
| "step (Settle n what) s =
     (if n < length (tasks s)
      then (case resume (tasks s ! n) what s of (s', t) \<Rightarrow> s'\<lparr>tasks := (tasks s')[n := t]\<rparr>)
      else s)"

definition run :: "event list \<Rightarrow> toolbar \<Rightarrow> toolbar" where
  "run evs s = fold step evs s"

text \<open>The fields as the constructors of \<open>AzureClient\<close> and \<open>LanguageBridgeToolbar\<close> set them.\<close>

definition newAzureClient :: azure_client where
  "newAzureClient =
     \<lparr>demoPassword = None, translationCache = [], fetched = [], spoken = []\<rparr>"

definition newToolbar :: toolbar where
  "newToolbar =
     \<lparr>isReading = False, isPaused = False, isTranslating = False,
      userLanguage = utf16 ''fa'', selectedText = [], abortController = None,
      cachedTranslation = None, cachedOriginalText = None,
      translationSentences = [], currentSentenceIndex = 0,
      tooltip = None, googleDocsActive = False,
      signals = [], statusLine = [],
      azureClient = newAzureClient, tasks = []\<rparr>"

section \<open>Cache insertions and sample inputs\<close>

text \<open>
  \<open>init\<close> of \<open>AzureClient\<close>, for the demo password:
  \<open>if (keys.demoPassword) { this.config.demoPassword = keys.demoPassword; }\<close>
\<close>

definition azureInit :: "jsstring option \<Rightarrow> azure_client \<Rightarrow> azure_client" where
  "azureInit storedPassword c =
     (if truthy storedPassword then c\<lparr>demoPassword := storedPassword\<rparr> else c)"

text \<open>
  A triple is (fromLang, toLang, text); \<open>translateText\<close> computes its cache key at
  entry and hands it to the cache update. \<open>insertAll\<close> runs the cache updates of a
  sequence of translations, in the order in which they reach the cache.
\<close>

type_synonym triple = "jsstring \<times> jsstring \<times> jsstring"

definition tripleKey :: "triple \<Rightarrow> jsstring" where
  "tripleKey t = (case t of (fromLang, toLang, text) \<Rightarrow> cacheKey fromLang toLang text)"

text \<open>The cache entry that the translation of a triple leaves: its key and the text.\<close>

definition cacheEntry :: "triple \<times> jsstring \<Rightarrow> jsstring \<times> jsstring" where
  "cacheEntry e = (tripleKey (fst e), snd e)"

fun insertAll :: "(triple \<times> jsstring) list \<Rightarrow> js_map \<Rightarrow> js_map" where
  "insertAll [] cache = cache"
| "insertAll ((t, translatedText) # es) cache =
     insertAll es (cacheStore (tripleKey t) translatedText cache)"

text \<open>
  Sample translations: number \<open>n\<close> is the English text of \<open>n + 1\<close> letters 'a',
  translated to Dari as \<open>n + 1\<close> letters 'b'.
\<close>

definition sampleEntry :: "nat \<Rightarrow> triple \<times> jsstring" where
  "sampleEntry n =
     ((utf16 ''en'', utf16 ''fa'', replicate (Suc n) 0x61), replicate (Suc n) 0x62)"

text \<open>
  101 translations of distinct triples, the first two for the languages 'fa-IR-formal'
  and 'fa' of the toolbar's language table. Their calls are in flight together: each
  is issued before the other one has stored its result.
\<close>

definition collidingEntries :: "(triple \<times> jsstring) list" where
  "collidingEntries =
     ((utf16 ''en'', utf16 ''fa-IR-formal'', utf16 ''hello''), utf16 ''salaam'')
     # ((utf16 ''en'', utf16 ''fa'', utf16 ''IR-formal-hello''), utf16 ''IR-formal-salaam'')
     # map sampleEntry [0..<99]"

text \<open>
  The toolbar after \<open>init\<close> has found a demo password in storage; the language is
  the default, Dari.
\<close>

definition toolbarWithPassword :: toolbar where
  "toolbarWithPassword =
     newToolbar\<lparr>azureClient := azureInit (Some (utf16 ''DEMO-2025-SPRING'')) newAzureClient\<rparr>"

text \<open>
  A page selection with one range, as \<open>window.getSelection()\<close> gives it after text
  has been selected on the page, and a selection without a range.
\<close>

definition pageRange :: "dom_selection option" where
  "pageRange = Some (Selection 1)"

definition noRange :: "dom_selection option" where
  "noRange = Some (Selection 0)"

text \<open>
  \<open>playThrough n m\<close>: for \<open>m\<close> sentences in turn, the \<open>speakText\<close> that call \<open>n\<close>
  awaits resolves and the 400 ms pause behind the sentence elapses.
\<close>

fun playThrough :: "nat \<Rightarrow> nat \<Rightarrow> event list" where
  "playThrough n 0 = []"
| "playThrough n (Suc m) =
     Settle n (Spoke SpeakResolved) # Settle n TimerFired # playThrough n m"


text \<open>
  Four runs.
  \<^item> 'One. Two.' is read; the run ends in the pause behind the second sentence.
  \<^item> 'One. Two. Three.' is read; \<open>pauseReading\<close> is called in the pause behind the
    second sentence, the loop notices it when its timer fires, then \<open>resumeReading\<close>
    is called.
  \<^item> 'A' is selected on the page and play is pressed; 'B' is selected and play is
    pressed again while the translator has not answered; the answer for 'A' arrives
    ('Alef'); play is pressed a third time and the reading runs to its end.
  \<^item> 'Hello. How are you?' is submitted in the manual text box and play is pressed
    while the page has no selection range; the translator's request is rejected.
\<close>

definition readTwoSentences :: "event list" where
  "readTwoSentences =
     [CallReadText (utf16 ''One. Two.'') pageRange,
      Settle 0 (Spoke SpeakResolved), Settle 0 TimerFired,
      Settle 0 (Spoke SpeakResolved)]"

definition pauseAfterSecondSentence :: "event list" where
  "pauseAfterSecondSentence =
     [CallReadText (utf16 ''One. Two. Three.'') pageRange,
      Settle 0 (Spoke SpeakResolved), Settle 0 TimerFired,
      Settle 0 (Spoke SpeakResolved), CallPauseReading, Settle 0 TimerFired,
      CallResumeReading]"


definition readWithoutRange :: "event list" where
  "readWithoutRange =
     [TextInput (utf16 ''Hello. How are you?''), ToggleReading noRange,
      Settle 0 (Fetched FetchRejected)]"

text \<open>
  The selections for which the tooltip step of \<open>readText\<close> places a tooltip or has
  nothing to place: \<open>null\<close>, any selection in Google Docs, and a selection with a
  range.
\<close>

definition tooltipPlaceable :: "dom_selection option \<Rightarrow> toolbar \<Rightarrow> bool" where
  "tooltipPlaceable selection s =
     (case selection of
        None \<Rightarrow> True
      | Some sel \<Rightarrow> googleDocsActive s \<or> rangeCount sel > 0)"

text \<open>A call whose promise was rejected: an exception escaped to its caller.\<close>

fun rejected :: "task \<Rightarrow> bool" where
  "rejected (Settled (Some e)) = True"
| "rejected _ = False"

section \<open>Properties of the sentence segmenter\<close>

lemma matchAt_no_terminator:
  "\<forall>a\<in>set s. \<not> isTerminator a \<Longrightarrow> matchAt s = None"
proof -
  assume "\<forall>a\<in>set s. \<not> isTerminator a"
  then have d: "dropWhile (\<lambda>c. \<not> isTerminator c) s = []" by simp
  show ?thesis unfolding matchAt_def Let_def d by simp
qed

lemma matchGlobal_no_terminator:
  "\<forall>a\<in>set s. \<not> isTerminator a \<Longrightarrow> matchGlobal s = []"
  by (induction s) (simp_all add: matchAt_no_terminator)

lemma matchAt_last:
  assumes "matchAt s = Some (m, r)"
  shows "m \<noteq> [] \<and> isTerminator (last m)"
proof -
  define rest where "rest = dropWhile (\<lambda>c. \<not> isTerminator c) s"
  define marks where "marks = takeWhile isTerminator rest"
  from assms have m: "m = takeWhile (\<lambda>c. \<not> isTerminator c) s @ marks"
    and ne: "marks \<noteq> []"
    by (auto simp: matchAt_def Let_def rest_def marks_def split: if_splits)
  from ne have "last marks \<in> set marks" by simp
  then have "isTerminator (last marks)"
    unfolding marks_def by (meson set_takeWhileD)
  with m ne show ?thesis by simp
qed

lemma matchGlobal_last:
  "m \<in> set (matchGlobal s) \<Longrightarrow> m \<noteq> [] \<and> isTerminator (last m)"
proof (induction s arbitrary: m rule: matchGlobal.induct)
  case 1
  then show ?case by simp
next
  case (2 c cs)
  show ?case
  proof (cases "matchAt (c # cs)")
    case None
    with 2 show ?thesis by simp
  next
    case (Some p)
    obtain m' r where p: "p = (m', r)" by (cases p)
    from Some p have at: "matchAt (c # cs) = Some (m', r)" by simp
    from 2(3) at have "m = m' \<or> m \<in> set (matchGlobal r)" by simp
    then show ?thesis
    proof
      assume "m = m'"
      with matchAt_last [OF at] show ?thesis by simp
    next
      assume "m \<in> set (matchGlobal r)"
      with 2(2) [OF Some p [symmetric]] show ?thesis by simp
    qed
  qed
qed

lemma matchAt_split:
  assumes "x \<noteq> []" and "\<forall>a\<in>set x. \<not> isTerminator a" and "isTerminator c"
    and "y = [] \<or> \<not> isTerminator (hd y)"
  shows "matchAt (x @ c # y) = Some (x @ [c], y)"
proof -
  have t: "takeWhile (\<lambda>c. \<not> isTerminator c) (x @ c # y) = x"
    using assms(2,3) by (simp add: takeWhile_append2)
  have d: "dropWhile (\<lambda>c. \<not> isTerminator c) (x @ c # y) = c # y"
    using assms(2,3) by (simp add: dropWhile_append2)
  have ty: "takeWhile isTerminator y = []" and dy: "dropWhile isTerminator y = y"
    using assms(4) by (cases y; auto)+
  show ?thesis
    using assms(1,3) by (simp add: matchAt_def Let_def t d ty dy)
qed

lemma trim_trim: "trim (trim s) = trim s"
proof -
  define y where "y = dropWhile isWhiteSpace s"
  define z where "z = dropWhile isWhiteSpace (rev y)"
  have t: "trim s = rev z" by (simp add: trim_def y_def z_def)
  have z: "dropWhile isWhiteSpace z = z" by (simp add: z_def)
  have "dropWhile isWhiteSpace (rev z) = rev z"
  proof (cases "z = []")
    case True
    then show ?thesis by simp
  next
    case False
    then have "last z = last (rev y)" and "rev y \<noteq> []"
      unfolding z_def by (auto simp: dropWhile_last)
    then have "hd (rev z) = hd y" and "y \<noteq> []"
      using False by (auto simp: hd_rev last_rev)
    moreover have "\<not> isWhiteSpace (hd y)"
      using \<open>y \<noteq> []\<close> unfolding y_def by (rule hd_dropWhile)
    ultimately show ?thesis by (simp add: dropWhile_eq_self_iff)
  qed
  then have "trim (rev z) = rev z" by (simp add: trim_def z)
  then show ?thesis by (simp add: t)
qed

lemma terminator_not_space: "isTerminator c \<Longrightarrow> \<not> isWhiteSpace c"
  by (auto simp: isTerminator_def isWhiteSpace_def)

lemma trim_eq_Nil: "trim s = [] \<longleftrightarrow> (\<forall>c\<in>set s. isWhiteSpace c)"
proof -
  have "trim s = [] \<longleftrightarrow> (\<forall>c\<in>set (dropWhile isWhiteSpace s). isWhiteSpace c)"
    by (simp add: trim_def dropWhile_eq_Nil_conv)
  also have "\<dots> \<longleftrightarrow> dropWhile isWhiteSpace s = []"
  proof (cases "dropWhile isWhiteSpace s")
    case Nil
    then show ?thesis by (metis empty_iff list.set(1))
  next
    case (Cons a as)
    then have "\<not> isWhiteSpace a" by (metis hd_dropWhile list.sel(1) list.simps(3))
    with Cons show ?thesis by auto
  qed
  finally show ?thesis by (simp add: dropWhile_eq_Nil_conv)
qed

lemma splitIntoSentences_nonempty:
  assumes "trim text \<noteq> []"
  shows "splitIntoSentences text \<noteq> []"
proof (cases "matchGlobal text")
  case Nil
  with assms show ?thesis by (simp add: splitIntoSentences_def)
next
  case (Cons m ms)
  then have "m \<in> set (matchGlobal text)" by simp
  then have "m \<noteq> []" and "isTerminator (last m)" using matchGlobal_last by blast+
  then have "last m \<in> set m" and "\<not> isWhiteSpace (last m)"
    by (simp_all add: terminator_not_space)
  then have "trim m \<noteq> []" unfolding trim_eq_Nil by blast
  with Cons show ?thesis by (simp add: splitIntoSentences_def)
qed

lemma trim_Nil [simp]: "trim [] = []"
  by (simp add: trim_def)

lemma dropWhile_none: "\<forall>c\<in>set s. \<not> P c \<Longrightarrow> dropWhile P s = s"
  by (cases s) auto

lemma trim_no_space:
  assumes "\<forall>c\<in>set s. \<not> isWhiteSpace c"
  shows "trim s = s"
proof -
  have "dropWhile isWhiteSpace s = s" using assms by (rule dropWhile_none)
  moreover have "dropWhile isWhiteSpace (rev s) = rev s"
    using assms by (intro dropWhile_none) simp
  ultimately show ?thesis by (simp add: trim_def)
qed

text \<open>
  Every sentence the segmenter returns is non-empty and trimmed, whatever the input.
\<close>

lemma splitIntoSentences_trimmed:
  "x \<in> set (splitIntoSentences text) \<Longrightarrow> x \<noteq> [] \<and> trim x = x"
  by (auto simp: splitIntoSentences_def Let_def trim_trim split: list.splits)

text \<open>
  C3. The claim: a text with N terminators gives N sentences, or N + 1 when
  unterminated text follows the last terminator, and the sentences together keep the
  content of the text. On the text 'Hello. How are you', with one terminator and the
  unterminated tail ' How are you', the segmenter returns the single sentence
  'Hello.': the tail is neither a sentence of its own nor part of one.
\<close>

theorem splitIntoSentences_drops_unterminated_tail:
  "splitIntoSentences (utf16 ''Hello. How are you'') = [utf16 ''Hello.'']"
  by code_simp

text \<open>
  C6, as the claim states it, fails: the inverted question mark U+00BF is in the
  character class and the text 'Hola \<questiondown>Como estas?' is split right behind it.
\<close>

theorem inverted_question_mark_is_boundary:
  "splitIntoSentences (utf16 ''Hola '' @ [0xBF] @ utf16 ''Como estas?'')
     = [utf16 ''Hola '' @ [0xBF], utf16 ''Como estas?'']"
  by code_simp

text \<open>
  C6, amended: the characters the segmenter splits on are exactly the seven characters
  \<open>. ! ?\<close>, U+061F, U+061B, U+06D4 and U+00BF (the inverted question mark included).
  For a text \<open>x c y\<close> where \<open>x\<close> is non-empty and has none of the seven and \<open>y\<close>
  does not start with one of them, the first match of the regular expression ends
  right behind \<open>c\<close>, and matching goes on with \<open>y\<close>, if and only if \<open>c\<close> is one of
  the seven.
\<close>

theorem sentence_boundaries:
  assumes "x \<noteq> []"
    and "\<forall>a\<in>set x. a \<notin> {0x2E, 0x21, 0x3F, 0x61F, 0x61B, 0x6D4, 0xBF}"
    and "y = [] \<or> hd y \<notin> {0x2E, 0x21, 0x3F, 0x61F, 0x61B, 0x6D4, 0xBF}"
  shows "matchGlobal (x @ c # y) = (x @ [c]) # matchGlobal y
         \<longleftrightarrow> c \<in> {0x2E, 0x21, 0x3F, 0x61F, 0x61B, 0x6D4, 0xBF}"
proof
  assume "matchGlobal (x @ c # y) = (x @ [c]) # matchGlobal y"
  then have "x @ [c] \<in> set (matchGlobal (x @ c # y))" by simp
  then have "isTerminator (last (x @ [c]))" using matchGlobal_last by blast
  then show "c \<in> {0x2E, 0x21, 0x3F, 0x61F, 0x61B, 0x6D4, 0xBF}"
    by (simp add: isTerminator_def)
next
  assume c: "c \<in> {0x2E, 0x21, 0x3F, 0x61F, 0x61B, 0x6D4, 0xBF}"
  then have tc: "isTerminator c" by (auto simp: isTerminator_def)
  have nx: "\<forall>a\<in>set x. \<not> isTerminator a"
    using assms(2) by (auto simp: isTerminator_def)
  have ny: "y = [] \<or> \<not> isTerminator (hd y)"
    using assms(3) by (auto simp: isTerminator_def)
  obtain a x' where x: "x = a # x'" using assms(1) by (cases x) auto
  have "matchAt (x @ c # y) = Some (x @ [c], y)"
    using matchAt_split [OF assms(1) nx tc ny] .
  then show "matchGlobal (x @ c # y) = (x @ [c]) # matchGlobal y"
    by (simp add: x)
qed

theorem sentence_boundaries_witness:
  "utf16 ''Hola '' \<noteq> []
   \<and> set (utf16 ''Hola '') \<inter> {0x2E, 0x21, 0x3F, 0x61F, 0x61B, 0x6D4, 0xBF} = {}
   \<and> hd (utf16 ''Como estas?'') \<notin> {0x2E, 0x21, 0x3F, 0x61F, 0x61B, 0x6D4, 0xBF}
   \<and> matchGlobal (utf16 ''Hola '' @ 0xBF # utf16 ''Como estas?'')
       = (utf16 ''Hola '' @ [0xBF]) # matchGlobal (utf16 ''Como estas?'')"
  using sentence_boundaries [of "utf16 ''Hola ''" "utf16 ''Como estas?''" "0xBF"]
  by (simp add: utf16_def)

section \<open>Properties of the translation cache\<close>

lemma jsMap_set_new:
  "k \<notin> fst ` set m \<Longrightarrow> jsMap_set k v m = m @ [(k, v)]"
  by (induction m) auto

lemma map_of_jsMap_set: "map_of (jsMap_set k v m) k = Some v"
  by (induction m) auto

lemma length_jsMap_set: "length (jsMap_set k v m) \<le> Suc (length m)"
  by (induction m) auto

lemma jsMap_set_head:
  "jsMap_set k v (p # m) = q # r \<Longrightarrow> fst q = fst p"
  by (cases p) (auto split: if_splits)

lemma cacheStore_new:
  assumes "k \<notin> fst ` set c" and "distinct (map fst c)" and "length c \<le> maxCacheSize"
  shows "cacheStore k v c = drop (Suc (length c) - maxCacheSize) (c @ [(k, v)])"
proof (cases "length c < maxCacheSize")
  case True
  then show ?thesis using assms(1) by (simp add: cacheStore_def jsMap_set_new)
next
  case False
  with assms(3) have len: "length c = maxCacheSize" by simp
  then obtain k0 v0 c' where c: "c = (k0, v0) # c'"
    by (cases c) (auto simp: maxCacheSize_def)
  have js: "jsMap_set k v c = c @ [(k, v)]" using assms(1) by (rule jsMap_set_new)
  from assms(1,2) c have f: "filter (\<lambda>p. fst p \<noteq> k0) (c' @ [(k, v)]) = c' @ [(k, v)]"
    by (auto simp: filter_id_conv)
  have "cacheStore k v c = jsMap_delete k0 (c @ [(k, v)])"
    unfolding cacheStore_def js Let_def using len c by simp
  also have "\<dots> = c' @ [(k, v)]" using f by (simp add: jsMap_delete_def c)
  finally show ?thesis using len c by simp
qed

lemma length_cacheStore:
  "length c \<le> maxCacheSize \<Longrightarrow> length (cacheStore k v c) \<le> maxCacheSize"
proof -
  assume a: "length c \<le> maxCacheSize"
  have l: "length (jsMap_set k v c) \<le> Suc (length c)" by (rule length_jsMap_set)
  show ?thesis
  proof (cases "jsMap_set k v c")
    case Nil
    then show ?thesis by (simp add: cacheStore_def)
  next
    case (Cons q r)
    have "length (jsMap_delete (fst q) (q # r)) \<le> length r"
      by (simp add: jsMap_delete_def)
    moreover have "length r \<le> maxCacheSize" using l a Cons by simp
    ultimately show ?thesis
      using Cons by (cases q) (auto simp: cacheStore_def Let_def)
  qed
qed

lemma length_insertAll:
  "length c \<le> maxCacheSize \<Longrightarrow> length (insertAll es c) \<le> maxCacheSize"
  by (induction es c rule: insertAll.induct) (simp_all add: length_cacheStore)

lemma insertAll_new:
  assumes "distinct (map fst c @ map (tripleKey \<circ> fst) es)" and "length c \<le> maxCacheSize"
  shows "insertAll es c
         = drop (length c + length es - maxCacheSize) (c @ map (\<lambda>e. (tripleKey (fst e), snd e)) es)"
  using assms
proof (induction es arbitrary: c)
  case Nil
  then show ?case by simp
next
  case (Cons e es)
  obtain t v where e: "e = (t, v)" by (cases e)
  let ?c1 = "cacheStore (tripleKey t) v c"
  let ?n = "Suc (length c) - maxCacheSize"
  from Cons.prems e have new: "tripleKey t \<notin> fst ` set c" and dc: "distinct (map fst c)"
    by auto
  have c1: "?c1 = drop ?n (c @ [(tripleKey t, v)])"
    using cacheStore_new [OF new dc Cons.prems(2)] .
  have len1: "length ?c1 \<le> maxCacheSize" using Cons.prems(2) by (rule length_cacheStore)
  have "set (map fst ?c1) \<subseteq> set (map fst c) \<union> {tripleKey t}"
    unfolding c1 using set_drop_subset [of ?n "c @ [(tripleKey t, v)]"] by auto
  moreover have "distinct (map fst ?c1)"
    unfolding c1 drop_map [symmetric] using new dc by (intro distinct_drop) auto
  moreover from Cons.prems(1) e have "distinct (map (tripleKey \<circ> fst) es)"
    and "set (map fst c) \<inter> set (map (tripleKey \<circ> fst) es) = {}"
    and "tripleKey t \<notin> set (map (tripleKey \<circ> fst) es)"
    by (auto simp: comp_def)
  ultimately have d1: "distinct (map fst ?c1 @ map (tripleKey \<circ> fst) es)"
    unfolding distinct_append by blast
  have "insertAll (e # es) c = insertAll es ?c1" by (simp add: e)
  also have "\<dots> = drop (length ?c1 + length es - maxCacheSize)
                     (?c1 @ map (\<lambda>e. (tripleKey (fst e), snd e)) es)"
    using Cons.IH [OF d1 len1] .
  also have "\<dots> = drop (length c + length (e # es) - maxCacheSize)
                     (c @ map (\<lambda>e. (tripleKey (fst e), snd e)) (e # es))"
  proof (cases "length c < maxCacheSize")
    case True
    then have "?c1 = c @ [(tripleKey t, v)]" by (simp add: c1)
    then show ?thesis by (simp add: e)
  next
    case False
    with Cons.prems(2) have len: "length c = maxCacheSize" by simp
    then have ne: "c \<noteq> []" by (auto simp: maxCacheSize_def)
    have "?c1 = tl c @ [(tripleKey t, v)]"
      using len ne by (simp add: c1 drop_Suc maxCacheSize_def)
    moreover have "length (tl c) = maxCacheSize - 1" using len by simp
    moreover have "drop (Suc (length es)) (c @ (tripleKey t, v) # map (\<lambda>e. (tripleKey (fst e), snd e)) es)
        = drop (length es) (tl c @ (tripleKey t, v) # map (\<lambda>e. (tripleKey (fst e), snd e)) es)"
      using ne by (cases c) simp_all
    ultimately show ?thesis using len by (simp add: e maxCacheSize_def)
  qed
  finally show ?case .
qed

text \<open>
  C5, amended: from a cache of at most 100 entries, take 101 insertions of triples
  whose cache keys are pairwise distinct and not yet cached (from the empty cache: any
  101 triples with pairwise distinct keys). After the first 100 insertions the cache
  holds exactly the 100 inserted entries, in the order of insertion, and a lookup for
  the first triple finds its translation. The 101st insertion evicts the
  first-inserted entry and no other: the cache then holds exactly the entries 2 to
  101, and a lookup for the first triple is a miss. After every insertion the cache
  holds at most 100 entries.
\<close>

theorem cache_fifo_eviction:
  assumes "length es = 101"
    and "distinct (map fst cache @ map (tripleKey \<circ> fst) es)"
    and "length cache \<le> maxCacheSize"
  shows "insertAll (take 100 es) cache = map cacheEntry (take 100 es)
         \<and> jsMap_get (tripleKey (fst (hd es))) (insertAll (take 100 es) cache)
             = Some (snd (hd es))
         \<and> insertAll es cache = map cacheEntry (tl es)
         \<and> \<not> jsMap_has (tripleKey (fst (hd es))) (insertAll es cache)
         \<and> (\<forall>n. length (insertAll (take n es) cache) \<le> maxCacheSize)"
proof -
  have ce: "(\<lambda>e. (tripleKey (fst e), snd e)) = cacheEntry"
    by (rule ext) (simp add: cacheEntry_def)
  obtain e es' where es: "es = e # es'" using assms(1) by (cases es) auto
  have d100: "distinct (map fst cache @ map (tripleKey \<circ> fst) (take 100 es))"
  proof -
    have "distinct (map (tripleKey \<circ> fst) (take 100 es))"
      using assms(2) by (simp add: take_map [symmetric] distinct_take)
    moreover have "set (map (tripleKey \<circ> fst) (take 100 es)) \<subseteq> set (map (tripleKey \<circ> fst) es)"
      using set_take_subset [of 100 es] by auto
    ultimately show ?thesis using assms(2) unfolding distinct_append by blast
  qed
  have "insertAll (take 100 es) cache
        = drop (length cache + length (take 100 es) - maxCacheSize)
            (cache @ map cacheEntry (take 100 es))"
    using insertAll_new [OF d100 assms(3)] unfolding ce .
  then have first100: "insertAll (take 100 es) cache = map cacheEntry (take 100 es)"
    using assms(1) by (simp add: maxCacheSize_def)
  have "map_of (map cacheEntry (take 100 es)) (tripleKey (fst (hd es))) = Some (snd (hd es))"
    by (simp add: es cacheEntry_def)
  then have hit: "jsMap_get (tripleKey (fst (hd es))) (insertAll (take 100 es) cache)
             = Some (snd (hd es))"
    by (simp add: jsMap_get_def first100)
  have "insertAll es cache
        = drop (length cache + length es - maxCacheSize) (cache @ map cacheEntry es)"
    using insertAll_new [OF assms(2,3)] unfolding ce .
  also have "\<dots> = drop 1 (map cacheEntry es)"
    using assms(1,3) by (simp add: maxCacheSize_def)
  finally have all: "insertAll es cache = map cacheEntry (tl es)" by (simp add: es)
  then have "map fst (insertAll es cache) = map (tripleKey \<circ> fst) es'"
    by (simp add: es comp_def cacheEntry_def)
  moreover have "tripleKey (fst e) \<notin> set (map (tripleKey \<circ> fst) es')"
    using assms(2) es by auto
  ultimately have "tripleKey (fst (hd es)) \<notin> fst ` set (insertAll es cache)"
    using es by (metis list.sel(1) set_map)
  then have miss: "\<not> jsMap_has (tripleKey (fst (hd es))) (insertAll es cache)"
    by (simp add: jsMap_has_def map_of_eq_None_iff)
  show ?thesis using first100 hit all miss length_insertAll [OF assms(3)] by simp
qed

lemma sampleKey_inj: "inj (\<lambda>n. tripleKey (fst (sampleEntry n)))"
proof (rule injI)
  fix n m
  assume "tripleKey (fst (sampleEntry n)) = tripleKey (fst (sampleEntry m))"
  then have "replicate (Suc n) (0x61 :: jschar) = replicate (Suc m) 0x61"
    by (simp add: tripleKey_def sampleEntry_def cacheKey_def)
  then have "length (replicate (Suc n) (0x61 :: jschar)) = length (replicate (Suc m) (0x61 :: jschar))"
    by (rule arg_cong)
  then show "n = m" by simp
qed

lemma sampleKeys_distinct:
  "distinct (map (tripleKey \<circ> fst) (map sampleEntry [0..<n]))"
proof -
  have "inj_on (\<lambda>n. tripleKey (fst (sampleEntry n))) (set [0..<n])"
    using sampleKey_inj by (rule inj_on_subset) simp
  then show ?thesis by (simp add: distinct_map comp_def)
qed

text \<open>The 101 sample translations, inserted into the empty cache.\<close>

theorem cache_fifo_eviction_witness:
  "length (map sampleEntry [0..<101]) = 101
   \<and> distinct (map fst ([] :: js_map) @ map (tripleKey \<circ> fst) (map sampleEntry [0..<101]))
   \<and> length ([] :: js_map) \<le> maxCacheSize
   \<and> insertAll (take 100 (map sampleEntry [0..<101])) []
       = map cacheEntry (take 100 (map sampleEntry [0..<101]))
   \<and> jsMap_get (tripleKey (fst (hd (map sampleEntry [0..<101]))))
         (insertAll (take 100 (map sampleEntry [0..<101])) [])
       = Some (snd (hd (map sampleEntry [0..<101])))
   \<and> insertAll (map sampleEntry [0..<101]) [] = map cacheEntry (tl (map sampleEntry [0..<101]))
   \<and> \<not> jsMap_has (tripleKey (fst (hd (map sampleEntry [0..<101]))))
         (insertAll (map sampleEntry [0..<101]) [])
   \<and> (\<forall>n. length (insertAll (take n (map sampleEntry [0..<101])) []) \<le> maxCacheSize)"
proof -
  have h1: "length (map sampleEntry [0..<101]) = 101" by simp
  have h2: "distinct (map fst ([] :: js_map) @ map (tripleKey \<circ> fst) (map sampleEntry [0..<101]))"
    using sampleKeys_distinct [of 101] by simp
  have h3: "length ([] :: js_map) \<le> maxCacheSize" by simp
  from cache_fifo_eviction [OF h1 h2 h3] h1 h2 h3 show ?thesis by blast
qed

lemma collidingKey_fresh:
  "tripleKey (utf16 ''en'', utf16 ''fa'', utf16 ''IR-formal-hello'')
     \<notin> set (map (tripleKey \<circ> fst) (map sampleEntry [0..<n]))"
  by (auto simp: tripleKey_def sampleEntry_def cacheKey_def utf16_def)

lemma collidingEntries_cache:
  "insertAll collidingEntries []
   = (tripleKey (utf16 ''en'', utf16 ''fa'', utf16 ''IR-formal-hello''), utf16 ''IR-formal-salaam'')
     # map (\<lambda>e. (tripleKey (fst e), snd e)) (map sampleEntry [0..<99])"
proof -
  let ?k = "tripleKey (utf16 ''en'', utf16 ''fa'', utf16 ''IR-formal-hello'')"
  let ?c = "[(?k, utf16 ''IR-formal-salaam'')]"
  have same: "tripleKey (utf16 ''en'', utf16 ''fa-IR-formal'', utf16 ''hello'') = ?k"
    by (simp add: tripleKey_def cacheKey_def utf16_def)
  have "insertAll collidingEntries [] = insertAll (map sampleEntry [0..<99]) ?c"
    by (simp add: collidingEntries_def same cacheStore_def maxCacheSize_def)
  moreover have "distinct (map fst ?c @ map (tripleKey \<circ> fst) (map sampleEntry [0..<99]))"
    using sampleKeys_distinct [of 99] collidingKey_fresh [of 99] by simp
  moreover have "length ?c \<le> maxCacheSize" by (simp add: maxCacheSize_def)
  ultimately show ?thesis
    using insertAll_new [of ?c "map sampleEntry [0..<99]"] by (simp add: maxCacheSize_def)
qed

text \<open>
  C5, as the claim states it, fails: the 101 triples of \<open>collidingEntries\<close> are
  pairwise distinct, yet the first two have one cache key, the second insertion
  replaces the first in place, the cache ends with 100 entries, nothing is evicted, and
  a lookup for the first triple is a hit.
\<close>

theorem distinct_triples_without_eviction:
  "length collidingEntries = 101
   \<and> distinct (map fst collidingEntries)
   \<and> jsMap_has (tripleKey (fst (hd collidingEntries))) (insertAll collidingEntries [])"
proof -
  have "length collidingEntries = 101" by (simp add: collidingEntries_def)
  moreover have "distinct (map fst collidingEntries)"
  proof -
    have "inj sampleEntry" by (rule injI) (simp add: sampleEntry_def)
    then have "inj (fst \<circ> sampleEntry)"
      by (intro injI) (auto simp: sampleEntry_def dest!: arg_cong [where f = length])
    then have "distinct (map (fst \<circ> sampleEntry) [0..<99])"
      by (simp add: distinct_map inj_on_def inj_def)
    moreover have "(utf16 ''en'', utf16 ''fa-IR-formal'', utf16 ''hello'')
          \<notin> set (map (fst \<circ> sampleEntry) [0..<99])"
      and "(utf16 ''en'', utf16 ''fa'', utf16 ''IR-formal-hello'')
          \<notin> set (map (fst \<circ> sampleEntry) [0..<99])"
      by (auto simp: sampleEntry_def utf16_def)
    ultimately show ?thesis
      by (simp add: collidingEntries_def utf16_def)
  qed
  moreover have "jsMap_has (tripleKey (fst (hd collidingEntries))) (insertAll collidingEntries [])"
    unfolding collidingEntries_cache
    by (simp add: collidingEntries_def jsMap_has_def tripleKey_def cacheKey_def utf16_def)
  ultimately show ?thesis by simp
qed

text \<open>
  Both colliding calls reach the translator when the second is issued before the first
  has completed: the cache is consulted at the call, not at the insertion.
\<close>

lemma colliding_calls_both_in_flight:
  "truthy (demoPassword c) \<Longrightarrow> translationCache c = [] \<Longrightarrow>
   fst (translateText (utf16 ''hello'') (utf16 ''en'') (utf16 ''fa-IR-formal'') c)
     = Requested (utf16 ''en-fa-IR-formal-hello'')
   \<and> fst (translateText (utf16 ''IR-formal-hello'') (utf16 ''en'') (utf16 ''fa'')
            (snd (translateText (utf16 ''hello'') (utf16 ''en'') (utf16 ''fa-IR-formal'') c)))
     = Requested (utf16 ''en-fa-IR-formal-hello'')"
  by (simp add: translateText_def cacheKey_def jsMap_has_def utf16_def)

text \<open>
  C10: when the cache key of (text, fromLang, toLang) is not cached and no demo
  password is configured, \<open>translateText\<close> returns the text unchanged and leaves the
  client as it was: no request is recorded in \<open>fetched\<close> and the cache has no new
  entry.
\<close>

theorem translateText_without_password:
  assumes "\<not> jsMap_has (cacheKey fromLang toLang text) (translationCache c)"
    and "demoPassword c = None"
  shows "translateText text fromLang toLang c = (Returned (Inr text), c)"
  using assms by (simp add: translateText_def truthy_def)

theorem translateText_without_password_witness:
  "\<not> jsMap_has (cacheKey (utf16 ''en'') (utf16 ''fa'') (utf16 ''Hello.'')) (translationCache newAzureClient)
   \<and> demoPassword newAzureClient = None
   \<and> translateText (utf16 ''Hello.'') (utf16 ''en'') (utf16 ''fa'') newAzureClient
       = (Returned (Inr (utf16 ''Hello.'')), newAzureClient)"
  using translateText_without_password [of "utf16 ''en''" "utf16 ''fa''" "utf16 ''Hello.''" newAzureClient]
  by (simp add: newAzureClient_def jsMap_has_def)

lemma map_of_jsMap_delete:
  "k \<noteq> k' \<Longrightarrow> map_of (jsMap_delete k' m) k = map_of m k"
  by (induction m) (auto simp: jsMap_delete_def)

lemma cacheStore_lookup:
  assumes "\<not> jsMap_has k c"
  shows "map_of (cacheStore k v c) k = Some v"
proof (cases c)
  case Nil
  then show ?thesis by (simp add: cacheStore_def maxCacheSize_def)
next
  case (Cons p c')
  obtain k0 v0 where p: "p = (k0, v0)" by (cases p)
  from assms Cons p have ne: "k0 \<noteq> k" by (auto simp: jsMap_has_def)
  then have "jsMap_set k v c = (k0, v0) # jsMap_set k v c'" by (simp add: Cons p)
  then have "cacheStore k v c = jsMap_set k v c \<or> cacheStore k v c = jsMap_delete k0 (jsMap_set k v c)"
    by (simp add: cacheStore_def Let_def)
  then show ?thesis
    using ne map_of_jsMap_set [of k v c] map_of_jsMap_delete [of k k0 "jsMap_set k v c"]
    by auto
qed

text \<open>
  C9: the cache key is the dash-joined string, and it is not injective. The triples
  ('en', 'fa-IR-formal', 'hello') and ('en', 'fa', 'IR-formal-hello') differ and have
  the key 'en-fa-IR-formal-hello'. With a demo password and the key not yet cached, the
  call for the first triple goes to the translator; once its answer is stored, the
  call for the second triple returns that same result from the cache and sends
  nothing to the translator.
\<close>

theorem cacheKey_collision:
  assumes "truthy (demoPassword c)"
    and "\<not> jsMap_has (utf16 ''en-fa-IR-formal-hello'') (translationCache c)"
  shows "(utf16 ''en'', utf16 ''fa-IR-formal'', utf16 ''hello'')
           \<noteq> (utf16 ''en'', utf16 ''fa'', utf16 ''IR-formal-hello'')
   \<and> cacheKey (utf16 ''en'') (utf16 ''fa-IR-formal'') (utf16 ''hello'')
       = cacheKey (utf16 ''en'') (utf16 ''fa'') (utf16 ''IR-formal-hello'')
   \<and> (case translateText (utf16 ''hello'') (utf16 ''en'') (utf16 ''fa-IR-formal'') c of
         (Requested key, c1) \<Rightarrow>
           (case translateWithAzureDirect (utf16 ''hello'') key (Body (Some translation)) c1 of
              (result, c2) \<Rightarrow>
                translateText (utf16 ''IR-formal-hello'') (utf16 ''en'') (utf16 ''fa'') c2
                  = (Returned result, c2))
       | (Returned r, c1) \<Rightarrow> False)"
proof -
  let ?k = "utf16 ''en-fa-IR-formal-hello''"
  have k1: "cacheKey (utf16 ''en'') (utf16 ''fa-IR-formal'') (utf16 ''hello'') = ?k"
    and k2: "cacheKey (utf16 ''en'') (utf16 ''fa'') (utf16 ''IR-formal-hello'') = ?k"
    by (simp_all add: cacheKey_def utf16_def)
  have ne: "(utf16 ''en'', utf16 ''fa-IR-formal'', utf16 ''hello'')
           \<noteq> (utf16 ''en'', utf16 ''fa'', utf16 ''IR-formal-hello'')"
    by (simp add: utf16_def)
  let ?c1 = "c\<lparr>fetched := fetched c @ [(utf16 ''hello'', utf16 ''en'', utf16 ''fa-IR-formal'')]\<rparr>"
  have t1: "translateText (utf16 ''hello'') (utf16 ''en'') (utf16 ''fa-IR-formal'') c = (Requested ?k, ?c1)"
    using assms by (simp add: translateText_def k1)
  let ?v = "js_or (Some translation) (utf16 ''hello'')"
  let ?c2 = "?c1\<lparr>translationCache := cacheStore ?k ?v (translationCache ?c1)\<rparr>"
  have t2: "translateWithAzureDirect (utf16 ''hello'') ?k (Body (Some translation)) ?c1 = (Inr ?v, ?c2)"
    by (simp add: translateWithAzureDirect_def translateWithAzureDirect_try_def Let_def)
  have v: "?v \<noteq> []" by (simp add: js_or_def utf16_def)
  have look: "map_of (translationCache ?c2) ?k = Some ?v"
    using cacheStore_lookup [of ?k "translationCache c" ?v] assms(2) by simp
  have t3: "translateText (utf16 ''IR-formal-hello'') (utf16 ''en'') (utf16 ''fa'') ?c2
              = (Returned (Inr ?v), ?c2)"
    unfolding translateText_def k2 Let_def jsMap_has_def jsMap_get_def look
    using v by (simp add: js_or_def)
  show ?thesis unfolding k1 k2 using ne t1 t2 t3 by simp
qed

theorem cacheKey_collision_witness:
  "truthy (demoPassword (azureInit (Some (utf16 ''DEMO-2025-SPRING'')) newAzureClient))
   \<and> \<not> jsMap_has (utf16 ''en-fa-IR-formal-hello'')
          (translationCache (azureInit (Some (utf16 ''DEMO-2025-SPRING'')) newAzureClient))
   \<and> (case translateText (utf16 ''hello'') (utf16 ''en'') (utf16 ''fa-IR-formal'')
              (azureInit (Some (utf16 ''DEMO-2025-SPRING'')) newAzureClient) of
         (Requested key, c1) \<Rightarrow>
           (case translateWithAzureDirect (utf16 ''hello'') key (Body (Some (utf16 ''salaam''))) c1 of
              (result, c2) \<Rightarrow>
                translateText (utf16 ''IR-formal-hello'') (utf16 ''en'') (utf16 ''fa'') c2
                  = (Returned result, c2))
       | (Returned r, c1) \<Rightarrow> False)"
proof -
  let ?c = "azureInit (Some (utf16 ''DEMO-2025-SPRING'')) newAzureClient"
  have h1: "truthy (demoPassword ?c)"
    by (simp add: azureInit_def truthy_def newAzureClient_def utf16_def)
  have h2: "\<not> jsMap_has (utf16 ''en-fa-IR-formal-hello'') (translationCache ?c)"
    by (simp add: azureInit_def truthy_def newAzureClient_def jsMap_has_def)
  note h3 = cacheKey_collision [OF h1 h2, of "utf16 ''salaam''", THEN conjunct2, THEN conjunct2]
  show ?thesis by (rule conjI [OF h1 conjI [OF h2 h3]])
qed

section \<open>Properties of the playback controller\<close>

text \<open>
  No method changes the list of calls, and no call is ever rejected: the \<open>catch\<close>
  blocks of \<open>readText\<close> and \<open>resumeReading\<close> swallow every exception.
\<close>

lemma finish_snd [simp]: "snd (finish who thrown s) = Settled None"
  by (simp add: finish_def Let_def)

lemma finish_tasks [simp]: "tasks (fst (finish who thrown s)) = tasks s"
  by (simp add: finish_def Let_def showStatus_def split: caller.split option.split)

lemma loopHead_tasks [simp]: "tasks (fst (loopHead who signal rs i s)) = tasks s"
  by (simp add: loopHead_def Let_def)

lemma loopHead_rejected [simp]: "\<not> rejected (snd (loopHead who signal rs i s))"
  by (simp add: loopHead_def Let_def)

lemma speakFromCurrentPosition_tasks [simp]:
  "tasks (fst (speakFromCurrentPosition who signal s)) = tasks s"
  by (simp add: speakFromCurrentPosition_def Let_def)

lemma speakFromCurrentPosition_rejected [simp]:
  "\<not> rejected (snd (speakFromCurrentPosition who signal s))"
  by (simp add: speakFromCurrentPosition_def Let_def)

lemma afterSpeak_tasks [simp]:
  "tasks (fst (afterSpeak who signal rs i g outcome s)) = tasks s"
  by (simp add: afterSpeak_def split: speak_outcome.split)

lemma afterSpeak_rejected [simp]:
  "\<not> rejected (snd (afterSpeak who signal rs i g outcome s))"
  by (simp add: afterSpeak_def split: speak_outcome.split)

lemma afterGap_tasks [simp]: "tasks (fst (afterGap who signal rs i g s)) = tasks s"
  by (simp add: afterGap_def)

lemma afterGap_rejected [simp]: "\<not> rejected (snd (afterGap who signal rs i g s))"
  by (simp add: afterGap_def)

lemma readText_tooltip_tasks [simp]:
  "tasks (snd (readText_tooltip translatedText selection s)) = tasks s"
  by (simp add: readText_tooltip_def showTranslationTooltip_def
      showTranslationTooltipCentered_def hideTranslationTooltip_def Let_def
      split: option.split)

lemma readText_translated_tasks [simp]:
  "tasks (fst (readText_translated signal text selection result s)) = tasks s"
proof (cases result)
  case (Inl e)
  then show ?thesis by (simp add: readText_translated_def)
next
  case (Inr translatedText)
  let ?s1 = "s\<lparr>cachedOriginalText := Some text, cachedTranslation := Some translatedText,
      translationSentences := splitIntoSentences translatedText, currentSentenceIndex := 0\<rparr>"
  obtain thrown s2 where t: "readText_tooltip translatedText selection ?s1 = (thrown, s2)"
    by (cases "readText_tooltip translatedText selection ?s1")
  then have "tasks s2 = tasks s"
    using readText_tooltip_tasks [of translatedText selection ?s1] by simp
  then show ?thesis
    using Inr t by (simp add: readText_translated_def Let_def split: option.split)
qed

lemma readText_translated_rejected [simp]:
  "\<not> rejected (snd (readText_translated signal text selection result s))"
  by (simp add: readText_translated_def Let_def split: sum.split prod.split option.split)

lemma readText_start_tasks [simp]:
  "tasks (fst (readText_start text selection s)) = tasks s"
  by (simp add: readText_start_def Let_def newAbortController_def
      split: prod.split translate_step.split)

lemma readText_start_rejected [simp]:
  "\<not> rejected (snd (readText_start text selection s))"
  by (simp add: readText_start_def Let_def newAbortController_def
      split: prod.split translate_step.split)

lemma readText_tasks [simp]: "tasks (fst (readText text selection s)) = tasks s"
  by (simp add: readText_def stopReading_abort_def showStatus_def split: option.split)

lemma readText_rejected [simp]: "\<not> rejected (snd (readText text selection s))"
  by (simp add: readText_def)

lemma resumeReading_tasks [simp]: "tasks (fst (resumeReading s)) = tasks s"
  by (simp add: resumeReading_def Let_def newAbortController_def showStatus_def)

lemma resumeReading_rejected [simp]: "\<not> rejected (snd (resumeReading s))"
  by (simp add: resumeReading_def Let_def newAbortController_def)

lemma resume_tasks [simp]: "tasks (fst (resume t what s)) = tasks s"
  by (cases "(t, what, s)" rule: resume.cases)
     (simp_all add: stopReading_clear_def hideTranslationTooltip_def showStatus_def
        split: prod.split)

lemma resume_rejected: "\<not> rejected t \<Longrightarrow> \<not> rejected (snd (resume t what s))"
  by (cases "(t, what, s)" rule: resume.cases)
     (simp_all split: prod.split)

lemma spawn_keeps:
  assumes "tasks (fst r) = tasks s" and "i < length (tasks s)"
  shows "i < length (tasks (spawn r)) \<and> tasks (spawn r) ! i = tasks s ! i"
  using assms by (cases r) (simp add: spawn_def nth_append)

lemma pauseReading_tasks [simp]: "tasks (pauseReading s) = tasks s"
  by (simp add: pauseReading_def Let_def showStatus_def)

lemma step_keeps_fulfilled:
  assumes "i < length (tasks s)" and "\<not> rejected (tasks s ! i)"
  shows "i < length (tasks (step ev s)) \<and> \<not> rejected (tasks (step ev s) ! i)"
proof (cases ev)
  case (CallReadText x sel)
  with assms spawn_keeps [of "readText x sel s" s i] show ?thesis by simp
next
  case CallPauseReading
  with assms show ?thesis by simp
next
  case CallResumeReading
  with assms spawn_keeps [of "resumeReading s" s i] show ?thesis by simp
next
  case (ToggleReading sel)
  with assms spawn_keeps [of "resumeReading s" s i]
    spawn_keeps [of "readText (selectedText s) sel s" s i]
  show ?thesis by (simp add: toggleReading_def showStatus_def)
next
  case (PageSelection sel t)
  with assms show ?thesis by (simp add: handleTextSelection_def Let_def showStatus_def)
next
  case (TextInput val)
  with assms show ?thesis by (simp add: textInputSubmitted_def Let_def showStatus_def)
next
  case (GoogleDocsSelection x)
  with assms show ?thesis by (simp add: googleDocsTextSelected_def showStatus_def)
next
  case (Settle n what)
  show ?thesis
  proof (cases "n < length (tasks s)")
    case False
    with assms Settle show ?thesis by simp
  next
    case True
    obtain s' t where r: "resume (tasks s ! n) what s = (s', t)"
      by (cases "resume (tasks s ! n) what s")
    have ts: "tasks s' = tasks s" using resume_tasks [of "tasks s ! n" what s] r by simp
    have rt: "\<not> rejected (tasks s ! n) \<Longrightarrow> \<not> rejected t"
      using resume_rejected [of "tasks s ! n" what s] r by simp
    from assms True Settle r ts rt show ?thesis
      by (cases "i = n") (simp_all add: nth_list_update)
  qed
qed

lemma run_keeps_fulfilled:
  "i < length (tasks s) \<Longrightarrow> \<not> rejected (tasks s ! i) \<Longrightarrow>
   i < length (tasks (run evs s)) \<and> \<not> rejected (tasks (run evs s) ! i)"
proof (induction evs arbitrary: s)
  case Nil
  then show ?case by (simp add: run_def)
next
  case (Cons ev evs)
  from step_keeps_fulfilled [OF Cons.prems]
  have "i < length (tasks (step ev s))" and "\<not> rejected (tasks (step ev s) ! i)" by simp_all
  from Cons.IH [OF this] show ?case by (simp add: run_def)
qed

lemma run_append: "run (es @ fs) s = run fs (run es s)"
  by (simp add: run_def)

lemma run_Cons: "run (e # es) s = run es (step e s)"
  by (simp add: run_def)

lemma run_Nil: "run [] s = s"
  by (simp add: run_def)

text \<open>
  Whether a signal is aborted depends on \<open>signals\<close> only, and a new controller
  aborts nothing.
\<close>

lemma aborted_frame [simp]:
  "aborted g (isReading_update f1 s) = aborted g s"
  "aborted g (isPaused_update f2 s) = aborted g s"
  "aborted g (isTranslating_update f3 s) = aborted g s"
  "aborted g (userLanguage_update f4 s) = aborted g s"
  "aborted g (selectedText_update f5 s) = aborted g s"
  "aborted g (abortController_update f6 s) = aborted g s"
  "aborted g (cachedTranslation_update f7 s) = aborted g s"
  "aborted g (cachedOriginalText_update f8 s) = aborted g s"
  "aborted g (translationSentences_update f9 s) = aborted g s"
  "aborted g (currentSentenceIndex_update f10 s) = aborted g s"
  "aborted g (tooltip_update f11 s) = aborted g s"
  "aborted g (googleDocsActive_update f12 s) = aborted g s"
  "aborted g (statusLine_update f13 s) = aborted g s"
  "aborted g (azureClient_update f14 s) = aborted g s"
  "aborted g (tasks_update f15 s) = aborted g s"
  by (simp_all add: aborted_def)

lemma aborted_new_controller [simp]:
  "aborted g (s\<lparr>signals := signals s' @ [False]\<rparr>) = aborted g s'"
  by (auto simp: aborted_def nth_append)

lemma fresh_signal_not_aborted [simp]: "\<not> aborted (length (signals s)) s"
  by (simp add: aborted_def)

text \<open>
  A loop that is neither paused nor aborted speaks every remaining sentence, in
  order, and then completes.
\<close>

lemma loop_plays_rest:
  assumes "n < length (tasks s)"
    and "tasks s ! n = AwaitSpeak who signal rs i g"
    and "i < length rs"
    and "\<not> aborted signal s" and "\<not> isPaused s"
  shows "run (playThrough n (length rs - i)) s =
     s\<lparr>isReading := False, isTranslating := False, abortController := None,
       currentSentenceIndex := 0,
       statusLine := statusLine s @ (case who of ByReadText \<Rightarrow> [] | ByResumeReading \<Rightarrow> [Completed]),
       azureClient := (azureClient s)
         \<lparr>spoken := spoken (azureClient s) @ map (\<lambda>x. (x, userLanguage s)) (drop (Suc i) rs)\<rparr>,
       tasks := (tasks s)[n := Settled None]\<rparr>"
  using assms
proof (induction "length rs - i" arbitrary: s i g)
  case 0
  then show ?case by simp
next
  case (Suc k)
  define s1 where "s1 = step (Settle n (Spoke SpeakResolved)) s"
  define s2 where "s2 = step (Settle n TimerFired) s1"
  have s1: "s1 = s\<lparr>currentSentenceIndex := g + 1,
                    tasks := (tasks s)[n := AwaitGap who signal rs i g]\<rparr>"
    unfolding s1_def using Suc.prems by (simp add: afterSpeak_def)
  have len: "length rs - i = Suc k" using Suc.hyps(2) by simp
  have ab1: "\<not> aborted signal s1" and p1: "\<not> isPaused s1"
    using Suc.prems by (simp_all add: s1)
  have r: "run (playThrough n (length rs - i)) s = run (playThrough n k) s2"
    using len by (simp add: run_Cons s1_def s2_def)
  show ?case
  proof (cases "Suc i < length rs")
    case True
    have s2: "s2 = s\<lparr>currentSentenceIndex := g + 1,
        azureClient := speakText (rs ! Suc i) (userLanguage s) (azureClient s),
        tasks := (tasks s)[n := AwaitSpeak who signal rs (Suc i) (g + 1 + Suc i)]\<rparr>"
      unfolding s2_def using Suc.prems True ab1 p1
      by (simp add: s1 afterGap_def loopHead_def Let_def)
    have k: "k = length rs - Suc i" using len by simp
    have ih: "run (playThrough n (length rs - Suc i)) s2 =
      s2\<lparr>isReading := False, isTranslating := False, abortController := None,
       currentSentenceIndex := 0,
       statusLine := statusLine s2 @ (case who of ByReadText \<Rightarrow> [] | ByResumeReading \<Rightarrow> [Completed]),
       azureClient := (azureClient s2)
         \<lparr>spoken := spoken (azureClient s2) @ map (\<lambda>x. (x, userLanguage s2)) (drop (Suc (Suc i)) rs)\<rparr>,
       tasks := (tasks s2)[n := Settled None]\<rparr>"
      by (rule Suc.hyps(1) [OF k])
         (use Suc.prems True in \<open>simp_all add: s2\<close>)
    have dr: "drop (Suc i) rs = rs ! Suc i # drop (Suc (Suc i)) rs"
      using True by (simp add: Cons_nth_drop_Suc)
    show ?thesis
      unfolding r k ih by (simp add: s2 speakText_def dr)
  next
    case False
    with len have k0: "k = 0" and last: "Suc i = length rs" by simp_all
    have s2: "s2 = s\<lparr>isReading := False, isTranslating := False, abortController := None,
        currentSentenceIndex := 0,
        statusLine := statusLine s @ (case who of ByReadText \<Rightarrow> [] | ByResumeReading \<Rightarrow> [Completed]),
        tasks := (tasks s)[n := Settled None]\<rparr>"
      unfolding s2_def using Suc.prems False ab1 p1
      by (cases who)
         (simp_all add: s1 afterGap_def loopHead_def finish_def Let_def showStatus_def)
    show ?thesis
      unfolding r k0 by (simp add: run_Nil s2 last)
  qed
qed

lemma failed_translation_returns_text:
  assumes "outcome = FetchRejected \<or> outcome = ResponseNotOk \<or> outcome = BodyUnreadable"
  shows "translateWithAzureDirect text key outcome c = (Inr text, c)"
  using assms by (auto simp: translateWithAzureDirect_def translateWithAzureDirect_try_def)


lemma readText_tooltip_eq:
  "readText_tooltip translatedText selection s =
     (if tooltipPlaceable selection s then None else Some IndexSizeError,
      s\<lparr>tooltip := (case selection of None \<Rightarrow> tooltip s
                     | Some sel \<Rightarrow> if tooltipPlaceable selection s then Some translatedText
                                  else None)\<rparr>)"
  by (cases selection)
     (simp_all add: readText_tooltip_def tooltipPlaceable_def showTranslationTooltip_def
        showTranslationTooltipCentered_def hideTranslationTooltip_def Let_def)

lemma readText_requests_translation:
  assumes idle: "\<not> isTranslating s \<and> \<not> isReading s \<and> \<not> isPaused s"
    and lang: "userLanguage s \<noteq> utf16 ''en''"
    and pw: "truthy (demoPassword (azureClient s))"
    and miss: "\<not> jsMap_has (cacheKey (utf16 ''en'') (userLanguage s) text)
                 (translationCache (azureClient s))"
    and nonempty: "text \<noteq> []"
  shows "step (CallReadText text selection) s =
     s\<lparr>isTranslating := True, isReading := True, isPaused := False,
       abortController := Some (length (signals s)), signals := signals s @ [False],
       azureClient := (azureClient s)
         \<lparr>fetched := fetched (azureClient s) @ [(text, utf16 ''en'', userLanguage s)]\<rparr>,
       tasks := tasks s @ [AwaitTranslate (length (signals s)) text selection
                             (cacheKey (utf16 ''en'') (userLanguage s) text)]\<rparr>"
  using assms
  by (simp add: readText_def readText_start_def newAbortController_def translateText_def
      Let_def spawn_def)




text \<open>
  The translation arrives while the call is neither paused nor aborted, and the
  tooltip can be placed: the first sentence goes to the speech engine.
\<close>

lemma translated_text_is_spoken:
  assumes "n < length (tasks s)"
    and "tasks s ! n = AwaitTranslate signal text selection key"
    and "\<not> aborted signal s" and "\<not> isPaused s"
    and "translateWithAzureDirect text key outcome (azureClient s) = (Inr translated, c)"
    and "trim translated \<noteq> []"
    and "tooltipPlaceable selection s"
  shows "step (Settle n (Fetched outcome)) s =
     s\<lparr>cachedOriginalText := Some text, cachedTranslation := Some translated,
       translationSentences := splitIntoSentences translated, currentSentenceIndex := 0,
       tooltip := (case selection of None \<Rightarrow> tooltip s | Some sel \<Rightarrow> Some translated),
       azureClient := c\<lparr>spoken := spoken c @ [(hd (splitIntoSentences translated), userLanguage s)]\<rparr>,
       tasks := (tasks s)[n := AwaitSpeak ByReadText signal (splitIntoSentences translated) 0 0]\<rparr>"
proof -
  have ne: "splitIntoSentences translated \<noteq> []"
    using assms(6) by (rule splitIntoSentences_nonempty)
  then have hd: "splitIntoSentences translated ! 0 = hd (splitIntoSentences translated)"
    by (simp add: hd_conv_nth)
  show ?thesis
    using assms(1-5,7) ne
    by (cases selection)
       (simp_all add: readText_translated_def readText_tooltip_eq tooltipPlaceable_def
          speakFromCurrentPosition_def loopHead_def Let_def speakText_def hd)
qed



text \<open>
  \<open>isTranslating\<close> and \<open>isReading\<close> are written together by every method, so they
  agree in every state the toolbar reaches. The play button calls \<open>readText\<close> only
  when \<open>isReading\<close> is false, so the test of \<open>isTranslating\<close> at the entry of
  \<open>readText\<close> never holds for a call the play button makes: while a translation is
  in flight the button pauses.
\<close>

lemma finish_flags:
  "isTranslating (fst (finish who thrown s)) = isReading (fst (finish who thrown s))"
  by (simp add: finish_def Let_def showStatus_def split: caller.split option.split)

lemma loopHead_flags:
  "isTranslating s = isReading s \<Longrightarrow>
   isTranslating (fst (loopHead who signal rs i s)) = isReading (fst (loopHead who signal rs i s))"
  by (simp add: loopHead_def Let_def finish_flags)

lemma speakFromCurrentPosition_flags:
  "isTranslating s = isReading s \<Longrightarrow>
   isTranslating (fst (speakFromCurrentPosition who signal s))
     = isReading (fst (speakFromCurrentPosition who signal s))"
  by (simp add: speakFromCurrentPosition_def Let_def finish_flags loopHead_flags)

lemma readText_translated_flags:
  "isTranslating s = isReading s \<Longrightarrow>
   isTranslating (fst (readText_translated signal text selection result s))
     = isReading (fst (readText_translated signal text selection result s))"
  by (cases result; cases selection)
     (simp_all add: readText_translated_def readText_tooltip_eq Let_def finish_flags
        speakFromCurrentPosition_flags)

lemma readText_start_flags:
  "isTranslating (fst (readText_start text selection s))
     = isReading (fst (readText_start text selection s))"
  by (simp add: readText_start_def Let_def newAbortController_def finish_flags
      readText_translated_flags speakFromCurrentPosition_flags
      split: prod.split translate_step.split)

lemma readText_flags:
  "isTranslating s = isReading s \<Longrightarrow>
   isTranslating (fst (readText text selection s)) = isReading (fst (readText text selection s))"
  by (simp add: readText_def readText_start_flags stopReading_abort_def showStatus_def
      split: option.split)

lemma resumeReading_flags:
  "isTranslating s = isReading s \<Longrightarrow>
   isTranslating (fst (resumeReading s)) = isReading (fst (resumeReading s))"
  by (simp add: resumeReading_def Let_def newAbortController_def showStatus_def
      speakFromCurrentPosition_flags)

lemma resume_flags:
  "isTranslating s = isReading s \<Longrightarrow>
   isTranslating (fst (resume t what s)) = isReading (fst (resume t what s))"
  by (cases "(t, what, s)" rule: resume.cases)
     (simp_all add: stopReading_clear_def hideTranslationTooltip_def showStatus_def
        readText_start_flags readText_translated_flags afterSpeak_def afterGap_def
        finish_flags loopHead_flags split: prod.split speak_outcome.split)

lemma spawn_flags:
  "isTranslating (spawn r) = isTranslating (fst r) \<and> isReading (spawn r) = isReading (fst r)"
  by (cases r) (simp add: spawn_def)

lemma step_flags:
  assumes "isTranslating s = isReading s"
  shows "isTranslating (step ev s) = isReading (step ev s)"
proof (cases ev)
  case (CallReadText x sel)
  with assms show ?thesis by (simp add: spawn_flags readText_flags)
next
  case CallPauseReading
  then show ?thesis by (simp add: pauseReading_def Let_def showStatus_def)
next
  case CallResumeReading
  with assms show ?thesis by (simp add: spawn_flags resumeReading_flags)
next
  case (ToggleReading sel)
  with assms show ?thesis
    by (simp add: toggleReading_def spawn_flags readText_flags resumeReading_flags
        pauseReading_def Let_def showStatus_def)
next
  case (PageSelection sel t)
  with assms show ?thesis by (simp add: handleTextSelection_def Let_def showStatus_def)
next
  case (TextInput val)
  with assms show ?thesis by (simp add: textInputSubmitted_def Let_def showStatus_def)
next
  case (GoogleDocsSelection x)
  with assms show ?thesis by (simp add: googleDocsTextSelected_def showStatus_def)
next
  case (Settle n what)
  with assms resume_flags [of s "tasks s ! n" what] show ?thesis
    by (simp split: prod.split) (metis fst_conv)
qed

lemma run_flags:
  "isTranslating s = isReading s \<Longrightarrow> isTranslating (run evs s) = isReading (run evs s)"
  by (induction evs arbitrary: s) (simp_all add: run_Nil run_Cons step_flags)

lemma readText_guard:
  assumes "isTranslating s"
  shows "readText text selection s
         = (if text = [] then s else showStatus PleaseWait s, Settled None)"
  using assms by (simp add: readText_def)

lemma play_button_never_waits:
  assumes "isTranslating s = isReading s"
  shows "toggleReading windowSelection s =
    (if isReading s then pauseReading s
     else if isPaused s \<and> truthy (cachedTranslation s) then spawn (resumeReading s)
     else if selectedText s \<noteq> []
       then spawn (if isPaused s
                   then (stopReading_abort s,
                         AwaitStopRecognition (selectedText s) windowSelection)
                   else readText_start (selectedText s) windowSelection s)
     else showStatus PleaseSelectText s)"
  using assms by (simp add: toggleReading_def readText_def)

text \<open>
  When the translator's call fails and the tooltip can be placed (there is no
  selection object, the Google Docs adapter is active, or the selection has a range),
  \<open>readText\<close> goes on with the original text: the sentences are those of the
  original text, \<open>isReading\<close> holds, every sentence is handed to the speech engine as
  the loop runs to its end, and the promise of the call is never rejected.
\<close>

lemma failed_translation_reads_original:
  assumes failed: "outcome = FetchRejected \<or> outcome = ResponseNotOk \<or> outcome = BodyUnreadable"
    and idle: "\<not> isTranslating s \<and> \<not> isReading s \<and> \<not> isPaused s"
    and lang: "userLanguage s \<noteq> utf16 ''en''"
    and pw: "truthy (demoPassword (azureClient s))"
    and miss: "\<not> jsMap_has (cacheKey (utf16 ''en'') (userLanguage s) text)
                 (translationCache (azureClient s))"
    and nonblank: "trim text \<noteq> []"
    and placeable: "tooltipPlaceable selection s"
  shows "translationSentences
           (run [CallReadText text selection, Settle (length (tasks s)) (Fetched outcome)] s)
        = splitIntoSentences text
    \<and> isReading
           (run [CallReadText text selection, Settle (length (tasks s)) (Fetched outcome)] s)
    \<and> spoken (azureClient
           (run ([CallReadText text selection, Settle (length (tasks s)) (Fetched outcome)]
                 @ playThrough (length (tasks s)) (length (splitIntoSentences text))) s))
        = spoken (azureClient s) @ map (\<lambda>x. (x, userLanguage s)) (splitIntoSentences text)
    \<and> (\<forall>evs. \<not> rejected
          (tasks (run ([CallReadText text selection,
                        Settle (length (tasks s)) (Fetched outcome)] @ evs) s)
             ! length (tasks s)))"
proof -
  let ?n = "length (tasks s)"
  let ?key = "cacheKey (utf16 ''en'') (userLanguage s) text"
  let ?rs = "splitIntoSentences text"
  define s1 where "s1 = step (CallReadText text selection) s"
  define s2 where "s2 = step (Settle ?n (Fetched outcome)) s1"
  have nonempty: "text \<noteq> []" using nonblank by auto
  have s1: "s1 = s\<lparr>isTranslating := True, isReading := True, isPaused := False,
       abortController := Some (length (signals s)), signals := signals s @ [False],
       azureClient := (azureClient s)
         \<lparr>fetched := fetched (azureClient s) @ [(text, utf16 ''en'', userLanguage s)]\<rparr>,
       tasks := tasks s @ [AwaitTranslate (length (signals s)) text selection ?key]\<rparr>"
    unfolding s1_def using idle lang pw miss nonempty by (rule readText_requests_translation)
  have f: "translateWithAzureDirect text ?key outcome (azureClient s1) = (Inr text, azureClient s1)"
    using failed by (rule failed_translation_returns_text)
  have pl1: "tooltipPlaceable selection s1"
    using placeable by (cases selection) (simp_all add: s1 tooltipPlaceable_def)
  have s2: "s2 = s1\<lparr>cachedOriginalText := Some text, cachedTranslation := Some text,
       translationSentences := ?rs, currentSentenceIndex := 0,
       tooltip := (case selection of None \<Rightarrow> tooltip s1 | Some sel \<Rightarrow> Some text),
       azureClient := (azureClient s1)
         \<lparr>spoken := spoken (azureClient s1) @ [(hd ?rs, userLanguage s1)]\<rparr>,
       tasks := (tasks s1)[?n := AwaitSpeak ByReadText (length (signals s)) ?rs 0 0]\<rparr>"
    unfolding s2_def
    by (rule translated_text_is_spoken [OF _ _ _ _ f nonblank pl1]) (simp_all add: s1)
  have r: "run [CallReadText text selection, Settle ?n (Fetched outcome)] s = s2"
    by (simp add: run_def s1_def s2_def)
  have ne: "?rs \<noteq> []" using nonblank by (rule splitIntoSentences_nonempty)
  have "run (playThrough ?n (length ?rs - 0)) s2 =
     s2\<lparr>isReading := False, isTranslating := False, abortController := None,
       currentSentenceIndex := 0,
       statusLine := statusLine s2 @ (case ByReadText of ByReadText \<Rightarrow> [] | ByResumeReading \<Rightarrow> [Completed]),
       azureClient := (azureClient s2)
         \<lparr>spoken := spoken (azureClient s2) @ map (\<lambda>x. (x, userLanguage s2)) (drop (Suc 0) ?rs)\<rparr>,
       tasks := (tasks s2)[?n := Settled None]\<rparr>"
    by (rule loop_plays_rest [where signal = "length (signals s)" and g = 0])
       (use ne in \<open>simp_all add: s2 s1\<close>)
  then have "spoken (azureClient (run (playThrough ?n (length ?rs)) s2))
      = spoken (azureClient s) @ (hd ?rs, userLanguage s) # map (\<lambda>x. (x, userLanguage s)) (tl ?rs)"
    by (simp add: s2 s1 drop_Suc)
  then have all: "spoken (azureClient (run (playThrough ?n (length ?rs)) s2))
      = spoken (azureClient s) @ map (\<lambda>x. (x, userLanguage s)) ?rs"
    using ne by (cases ?rs) simp_all
  have "?n < length (tasks s2)" and "\<not> rejected (tasks s2 ! ?n)"
    by (simp_all add: s2 s1)
  then have "\<And>evs. \<not> rejected (tasks (run evs s2) ! ?n)"
    using run_keeps_fulfilled by blast
  then have esc: "\<forall>evs. \<not> rejected
          (tasks (run ([CallReadText text selection, Settle ?n (Fetched outcome)] @ evs) s) ! ?n)"
    unfolding run_append r by simp
  have "translationSentences s2 = ?rs" by (simp add: s2)
  moreover have "isReading s2" by (simp add: s2 s1)
  ultimately show ?thesis using esc all unfolding run_append r by simp
qed

text \<open>
  C4. The claim: when the translator's call fails, \<open>translateText\<close> returns the
  original text without throwing, and \<open>readText\<close> goes on to read the original text
  aloud, no exception escaping. The text 'Hello. How are you?' is submitted in the
  text box and the play button pressed while \<open>window.getSelection()\<close> has no range;
  the translator's request is rejected. The translation client returns the original
  text, which is cached and segmented, and the promise of \<open>readText\<close> is fulfilled;
  but \<open>showTranslationTooltip\<close> throws at \<open>selection.getRangeAt(0)\<close>, the \<open>catch\<close> of
  \<open>readText\<close> shows 'Error reading text', nothing is handed to the speech engine and
  \<open>isReading\<close> is cleared.
\<close>

theorem failed_translation_without_range_reads_nothing:
  "cachedTranslation (run readWithoutRange toolbarWithPassword)
     = Some (utf16 ''Hello. How are you?'')
   \<and> translationSentences (run readWithoutRange toolbarWithPassword)
     = [utf16 ''Hello.'', utf16 ''How are you?'']
   \<and> spoken (azureClient (run readWithoutRange toolbarWithPassword)) = []
   \<and> \<not> isReading (run readWithoutRange toolbarWithPassword)
   \<and> statusLine (run readWithoutRange toolbarWithPassword) = [TextReady, ErrorReading]
   \<and> tasks (run readWithoutRange toolbarWithPassword) = [Settled None]"
  by code_simp




text \<open>
  C8. The claim: in every reachable state
  \<open>0 \<le> currentSentenceIndex \<le> length translationSentences\<close>. Reading the two
  sentences 'One. Two.' reaches, in the pause behind the second sentence, a state with
  position 3: the loop adds its counter \<open>i\<close> to a field it has already advanced.
\<close>

theorem position_exceeds_sentence_count:
  "currentSentenceIndex (run readTwoSentences newToolbar) = 3
   \<and> length (translationSentences (run readTwoSentences newToolbar)) = 2"
  by code_simp

text \<open>
  Resuming never goes back to the translator: \<open>resumeReading\<close> and the loop it
  starts leave the sentences, the requests sent and the cache as they are.
\<close>

lemma finish_keeps_translation:
  "translationSentences (fst (finish who thrown s)) = translationSentences s
   \<and> fetched (azureClient (fst (finish who thrown s))) = fetched (azureClient s)
   \<and> translationCache (azureClient (fst (finish who thrown s)))
       = translationCache (azureClient s)"
  by (simp add: finish_def Let_def showStatus_def split: caller.split option.split)

lemma loopHead_keeps_translation:
  "translationSentences (fst (loopHead who signal rs i s)) = translationSentences s
   \<and> fetched (azureClient (fst (loopHead who signal rs i s))) = fetched (azureClient s)
   \<and> translationCache (azureClient (fst (loopHead who signal rs i s)))
       = translationCache (azureClient s)"
  by (simp add: loopHead_def Let_def speakText_def finish_keeps_translation)

lemma resumeReading_keeps_translation:
  "translationSentences (fst (resumeReading s)) = translationSentences s
   \<and> fetched (azureClient (fst (resumeReading s))) = fetched (azureClient s)
   \<and> translationCache (azureClient (fst (resumeReading s)))
       = translationCache (azureClient s)"
  by (simp add: resumeReading_def speakFromCurrentPosition_def Let_def
      newAbortController_def showStatus_def loopHead_keeps_translation
      finish_keeps_translation)

lemma loop_keeps_translation:
  assumes "t = AwaitSpeak who signal rs i g \<or> t = AwaitGap who signal rs i g"
  shows "translationSentences (fst (resume t what s)) = translationSentences s
   \<and> fetched (azureClient (fst (resume t what s))) = fetched (azureClient s)
   \<and> translationCache (azureClient (fst (resume t what s)))
       = translationCache (azureClient s)"
  using assms
  by (cases what)
     (auto simp: afterSpeak_def afterGap_def loopHead_keeps_translation
        finish_keeps_translation split: speak_outcome.split)

text \<open>
  C2. The claim: a pause behind sentence \<open>k\<close> followed by resume continues at
  sentence \<open>k + 1\<close>. With the three sentences 'One. Two. Three.' and the pause
  behind the second one (\<open>k = 1\<close>), resume finds the position 3, has nothing left to
  speak and completes: 'Three.' is never spoken.
\<close>

theorem resume_skips_third_sentence:
  "translationSentences (run pauseAfterSecondSentence newToolbar)
     = [utf16 ''One.'', utf16 ''Two.'', utf16 ''Three.'']
   \<and> map fst (spoken (azureClient (run pauseAfterSecondSentence newToolbar)))
     = [utf16 ''One.'', utf16 ''Two.'']
   \<and> tasks (run pauseAfterSecondSentence newToolbar) = [Settled None, Settled None]"
  by code_simp

text \<open>
  The page selection path does limit the text: what it stores has at most 1500 code
  units.
\<close>

lemma handleTextSelection_bounded:
  "length (selectedText s) \<le> MAX_CHARS \<Longrightarrow>
   length (selectedText (handleTextSelection selection t s)) \<le> MAX_CHARS"
  by (simp add: handleTextSelection_def Let_def showStatus_def)

text \<open>
  A text submitted in the manual text box is stored whole, and the play button hands
  it whole to \<open>readText\<close>.
\<close>

lemma manual_text_read_unbounded:
  assumes "trim val = val" and "val \<noteq> []" and "matchGlobal val = []"
  shows "run [TextInput val, ToggleReading pageRange] newToolbar =
    newToolbar\<lparr>isTranslating := True, isReading := True, selectedText := val,
       abortController := Some 0, signals := [False],
       cachedOriginalText := Some val, cachedTranslation := Some val,
       translationSentences := [val], tooltip := Some val, statusLine := [TextReady],
       azureClient := newAzureClient\<lparr>spoken := [(val, utf16 ''fa'')]\<rparr>,
       tasks := [AwaitSpeak ByReadText 0 [val] 0 0]\<rparr>"
proof -
  have sp: "splitIntoSentences val = [val]"
    using assms by (simp add: splitIntoSentences_def)
  have fa: "utf16 ''fa'' \<noteq> utf16 ''en''" by (simp add: utf16_def)
  show ?thesis
    using assms(1,2) fa
    by (simp add: run_def textInputSubmitted_def toggleReading_def showStatus_def
        newToolbar_def newAzureClient_def readText_def readText_start_def
        newAbortController_def translateText_def jsMap_has_def truthy_def Let_def
        spawn_def readText_translated_def readText_tooltip_def pageRange_def
        showTranslationTooltip_def hideTranslationTooltip_def
        speakFromCurrentPosition_def loopHead_def speakText_def sp aborted_def)
qed

text \<open>
  C7. The claim: on every input path the text handed to the playback controller has
  at most 1500 characters, longer input being cut with a warning. A text of 1501
  letters typed into the manual text box and submitted, then the play button: the
  whole text becomes \<open>selectedText\<close> and is the argument of \<open>readText\<close>, and the only
  status shown is 'Text ready'.
\<close>

theorem manual_text_not_truncated:
  "length (selectedText (run [TextInput (replicate 1501 0x61), ToggleReading pageRange] newToolbar))
     = 1501
   \<and> cachedOriginalText (run [TextInput (replicate 1501 0x61), ToggleReading pageRange] newToolbar)
       = Some (replicate 1501 0x61)
   \<and> statusLine (run [TextInput (replicate 1501 0x61), ToggleReading pageRange] newToolbar)
       = [TextReady]"
proof -
  have ns: "\<forall>c\<in>set (replicate 1501 (0x61 :: jschar)). \<not> isWhiteSpace c"
    by (simp add: isWhiteSpace_def)
  have nt: "\<forall>c\<in>set (replicate 1501 (0x61 :: jschar)). \<not> isTerminator c"
    by (simp add: isTerminator_def)
  have a: "trim (replicate 1501 (0x61 :: jschar)) = replicate 1501 0x61"
    using ns by (rule trim_no_space)
  have b: "replicate 1501 (0x61 :: jschar) \<noteq> []" by simp
  have c: "matchGlobal (replicate 1501 (0x61 :: jschar)) = []"
    using nt by (rule matchGlobal_no_terminator)
  show ?thesis
    unfolding manual_text_read_unbounded [OF a b c] by simp
qed

end
